theory Spec2Isabelle
  imports Main
begin

section \<open>Data model\<close>

text \<open>
  The warehouse bots keep two tables in a relational store: \<open>inventory\<close> (one row per
  SKU, lot and location) and \<open>reservations\<close>. Every statement the bots issue is a
  single \<open>execute_query\<close> call that is committed on its own
  (\<open>Database/db_connector.py\<close>), so a table is modelled as the list of its rows in
  the store's row order and each statement as a function on that list.

  Days and timestamps are only stored and compared, so both are integers. The clock
  (\<open>datetime.now()\<close>), the caller's id, the transaction stamp and the freshly
  generated reservation id (\<open>generate_id_stamp\<close>) are parameters of the operations.
  The store is assumed to answer each statement: a driver error, which the bots catch
  at the operation boundary, is not modelled.
\<close>

type_synonym date = int
type_synonym timestamp = int
type_synonym user = int

record inventory_row =
  sku :: string
  lot :: string
  location :: string
  quantity :: int
  inbound_date :: date
  created_by :: user
  last_updated_date :: "timestamp option"
  last_updated_by :: "user option"
  id_stamp :: string

datatype res_status = PENDING | PICKED | RETURNED | CANCELLED

record reservation =
  reserve_id :: string
  rsku :: string
  rquantity :: int
  reserved_by :: user
  reservation_date :: timestamp
  status :: res_status
  reserved_lot :: "string option"
  reserved_location :: "string option"
  rid_stamp :: string
  pickup_date :: "timestamp option"
  picked_by :: "user option"
  return_date :: "timestamp option"
  returned_by :: "user option"
  return_reason :: "string option"
  cancel_date :: "timestamp option"
  cancelled_by :: "user option"
  cancel_reason :: "string option"

record db =
  inventory :: "inventory_row list"
  reservations :: "reservation list"

text \<open>
  The failures the operations report. \<open>ValueError\<close> is Python's \<open>int(...)\<close> rejecting
  the quantity text; \<open>NameError\<close> is Python's failure to resolve a variable name.
\<close>

datatype error =
    ValueError
  | InvalidQuantityError
  | InvalidDateError
  | NoStockFound
  | InsufficientStockError int int
  | NegativeQuantityError int
  | RecordNotFoundError
  | ReservationNotFoundError
  | OverPickError int int
  | NameError
  | Unauthorized

text \<open>A deduction: lot, location and the quantity taken there.\<close>

type_synonym deduction = "string \<times> string \<times> int"

datatype final_status = SUCCESS | FAILED

section \<open>Statements on the inventory table\<close>

definition key_matches :: "string \<Rightarrow> string \<Rightarrow> string \<Rightarrow> inventory_row \<Rightarrow> bool" where
  "key_matches s l c r \<longleftrightarrow> sku r = s \<and> lot r = l \<and> location r = c"

text \<open>\<open>SELECT quantity FROM inventory WHERE sku = s AND lot = l AND location = c\<close>,
  \<open>fetch_one\<close>: the first matching row, or nothing.\<close>

definition select_quantity :: "inventory_row list \<Rightarrow> string \<Rightarrow> string \<Rightarrow> string \<Rightarrow> int option" where
  "select_quantity ledger s l c = map_option quantity (find (key_matches s l c) ledger)"

text \<open>\<open>UPDATE inventory SET quantity = v, last_updated_date = now, last_updated_by = uid,
  id_stamp = stamp WHERE sku = s AND lot = l AND location = c\<close>.\<close>

definition update_quantity ::
  "inventory_row list \<Rightarrow> int \<Rightarrow> timestamp \<Rightarrow> user \<Rightarrow> string \<Rightarrow> string \<Rightarrow> string \<Rightarrow> string \<Rightarrow> inventory_row list" where
  "update_quantity ledger v now uid stamp s l c =
     map (\<lambda>r. if key_matches s l c r
              then r\<lparr>quantity := v, last_updated_date := Some now,
                     last_updated_by := Some uid, id_stamp := stamp\<rparr>
              else r) ledger"

text \<open>\<open>UPDATE inventory SET quantity = quantity + v, ... WHERE sku = s AND lot = l AND
  location = c\<close>, where the lot and location parameters may be \<open>None\<close> (SQL NULL, which
  equals no value).\<close>

definition add_quantity ::
  "inventory_row list \<Rightarrow> int \<Rightarrow> timestamp \<Rightarrow> user \<Rightarrow> string \<Rightarrow> string \<Rightarrow> string option \<Rightarrow> string option \<Rightarrow> inventory_row list" where
  "add_quantity ledger v now uid stamp s l c =
     map (\<lambda>r. if sku r = s \<and> Some (lot r) = l \<and> Some (location r) = c
              then r\<lparr>quantity := quantity r + v, last_updated_date := Some now,
                     last_updated_by := Some uid, id_stamp := stamp\<rparr>
              else r) ledger"

text \<open>\<open>INSERT INTO inventory (sku, lot, location, quantity, inbound_date, created_by,
  id_stamp)\<close>.\<close>

definition insert_inventory ::
  "inventory_row list \<Rightarrow> string \<Rightarrow> string \<Rightarrow> string \<Rightarrow> int \<Rightarrow> date \<Rightarrow> user \<Rightarrow> string \<Rightarrow> inventory_row list" where
  "insert_inventory ledger s l c q d uid stamp =
     ledger @ [\<lparr>sku = s, lot = l, location = c, quantity = q, inbound_date = d,
             created_by = uid, last_updated_date = None, last_updated_by = None,
             id_stamp = stamp\<rparr>]"

text \<open>\<open>SELECT lot, location, quantity[, inbound_date] FROM inventory WHERE sku = s AND
  quantity > 0 ORDER BY inbound_date ASC\<close>, \<open>fetch_all\<close>. Rows of equal date are left
  in the store's row order.\<close>

definition available_stock :: "inventory_row list \<Rightarrow> string \<Rightarrow> inventory_row list" where
  "available_stock ledger s = sort_key inbound_date (filter (\<lambda>r. sku r = s \<and> 0 < quantity r) ledger)"

definition total_available :: "inventory_row list \<Rightarrow> int" where
  "total_available rows = sum_list (map quantity rows)"

text \<open>The sum of the quantities of all rows of a SKU.\<close>

definition sku_total :: "inventory_row list \<Rightarrow> string \<Rightarrow> int" where
  "sku_total ledger s = sum_list (map quantity (filter (\<lambda>r. sku r = s) ledger))"

definition inventory_key :: "inventory_row \<Rightarrow> string \<times> string \<times> string" where
  "inventory_key r = (sku r, lot r, location r)"

section \<open>The allocation walk\<close>

text \<open>
  The loop of \<open>process_outbound_items\<close> (bot2, lines 105-120) and of
  \<open>process_reserve_item\<close> (bot2, lines 251-267): the same statements in both, over
  the rows fetched before the loop. It stops at the first row reached with nothing left
  to take, otherwise takes \<open>min remaining quantity\<close>, writes the row's new quantity to
  the table and records the deduction.
\<close>

fun deduct_loop ::
  "timestamp \<Rightarrow> user \<Rightarrow> string \<Rightarrow> string \<Rightarrow> inventory_row list \<Rightarrow> int \<Rightarrow>
   inventory_row list \<Rightarrow> deduction list \<Rightarrow> inventory_row list \<times> deduction list \<times> int" where
  "deduct_loop now uid stamp s [] remaining ledger ded = (ledger, ded, remaining)"
| "deduct_loop now uid stamp s (r # rest) remaining ledger ded =
     (if remaining \<le> 0 then (ledger, ded, remaining)
      else
        let qty_to_deduct = min remaining (quantity r);
            new_qty_in_lot = quantity r - qty_to_deduct
        in deduct_loop now uid stamp s rest (remaining - qty_to_deduct)
             (update_quantity ledger new_qty_in_lot now uid stamp s (lot r) (location r))
             (ded @ [(lot r, location r, qty_to_deduct)]))"

text \<open>The walk as the specification words it (section 4.2, step 3): for each entry take
  \<open>min remaining quantity\<close>, record it, subtract it, stop when nothing remains.\<close>

fun allocate_walk :: "int \<Rightarrow> inventory_row list \<Rightarrow> deduction list" where
  "allocate_walk remaining [] = []"
| "allocate_walk remaining (r # rest) =
     (if remaining \<le> 0 then []
      else (lot r, location r, min remaining (quantity r))
             # allocate_walk (remaining - min remaining (quantity r)) rest)"

definition deducted :: "deduction list \<Rightarrow> int" where
  "deducted ds = sum_list (map (\<lambda>d. snd (snd d)) ds)"

section \<open>The item loop of the multi-item commands\<close>

text \<open>
  \<open>process_outbound_items\<close> and the three operations of bot1 run one pass per item
  over the same table, collect one reply per item, and end with \<open>overall_success\<close>
  false when some pass reached the bookkeeping after its \<open>try\<close> with
  \<open>item_success\<close> false. A pass is a function from the table to the new table, the
  reply and that flag.
\<close>

fun item_loop ::
  "('i \<Rightarrow> inventory_row list \<Rightarrow> inventory_row list \<times> 'r \<times> bool) \<Rightarrow> 'i list \<Rightarrow>
   inventory_row list \<Rightarrow> inventory_row list \<times> 'r list \<times> bool" where
  "item_loop pass [] ledger = (ledger, [], True)"
| "item_loop pass (item # items) ledger =
     (case pass item ledger of
        (ledger1, reply, failed) \<Rightarrow>
          (case item_loop pass items ledger1 of
             (ledger2, replies, all_ok) \<Rightarrow>
               (ledger2, reply # replies, all_ok \<and> \<not> failed)))"

section \<open>Outbound (bot2)\<close>

text \<open>
  One pass of the item loop of \<open>process_outbound_items\<close>. The quantity text parsed by
  \<open>int\<close> is \<open>None\<close> when \<open>int\<close> raises. The result is the table, the item's reply
  (an error, or the deductions of a success) and whether the pass reached the
  bookkeeping after the \<open>try\<close> with \<open>item_success\<close> false: the \<open>continue\<close> of the
  three rejections skips that bookkeeping.
\<close>

definition outbound_item ::
  "timestamp \<Rightarrow> user \<Rightarrow> string \<Rightarrow> string \<Rightarrow> int option \<Rightarrow> inventory_row list \<Rightarrow>
   inventory_row list \<times> (error + deduction list) \<times> bool" where
  "outbound_item now uid stamp s qty_str ledger =
     (case qty_str of
        None \<Rightarrow> (ledger, Inl ValueError, True)
      | Some qty \<Rightarrow>
          if qty \<le> 0 then (ledger, Inl InvalidQuantityError, False)
          else
            let stock = available_stock ledger s in
            if stock = [] then (ledger, Inl NoStockFound, False)
            else if total_available stock < qty
              then (ledger, Inl (InsufficientStockError (total_available stock) qty), False)
            else
              (case deduct_loop now uid stamp s stock qty ledger [] of
                 (ledger', deducted_details, remaining) \<Rightarrow> (ledger', Inr deducted_details, False)))"

definition process_outbound_items ::
  "timestamp \<Rightarrow> user \<Rightarrow> string \<Rightarrow> (string \<times> int option \<times> string) list \<Rightarrow> db \<Rightarrow>
   db \<times> (error + deduction list) list \<times> final_status" where
  "process_outbound_items now uid stamp items d =
     (case item_loop (\<lambda>(s, qty_str, reason). outbound_item now uid stamp s qty_str) items (inventory d) of
        (ledger', results, all_ok) \<Rightarrow>
          (d\<lparr>inventory := ledger'\<rparr>, results, if all_ok then SUCCESS else FAILED))"

section \<open>Reservations (bot2)\<close>

text \<open>What \<open>process_reserve_item\<close> leaves behind besides the tables: the flag and the
  error it logs, and the reply it returns (the deductions it lists, or an error).\<close>

record reserve_outcome =
  overall_success :: bool
  error_message :: "error option"
  return_message :: "error + deduction list"

text \<open>\<open>INSERT INTO reservations (reserve_id, sku, quantity, reserved_by,
  reservation_date, status, reserved_lot, reserved_location, id_stamp)\<close>.\<close>

definition insert_reservation ::
  "reservation list \<Rightarrow> string \<Rightarrow> string \<Rightarrow> int \<Rightarrow> user \<Rightarrow> timestamp \<Rightarrow>
   string option \<Rightarrow> string option \<Rightarrow> string \<Rightarrow> reservation list" where
  "insert_reservation rs rid s qty uid now l c stamp =
     rs @ [\<lparr>reserve_id = rid, rsku = s, rquantity = qty, reserved_by = uid,
            reservation_date = now, status = PENDING, reserved_lot = l,
            reserved_location = c, rid_stamp = stamp, pickup_date = None,
            picked_by = None, return_date = None, returned_by = None,
            return_reason = None, cancel_date = None, cancelled_by = None,
            cancel_reason = None\<rparr>]"

text \<open>
  \<open>process_reserve_item\<close> (bot2, lines 216-301). The two stock checks only set the flag,
  the error and the reply; neither leaves the \<open>else\<close> branch, so the walk and the insert
  follow in every case and the reply is overwritten by the success reply.
\<close>

definition process_reserve_item ::
  "timestamp \<Rightarrow> user \<Rightarrow> string \<Rightarrow> string \<Rightarrow> string \<Rightarrow> int option \<Rightarrow> db \<Rightarrow> db \<times> reserve_outcome" where
  "process_reserve_item now uid stamp reservation_id s quantity_str d =
     (case quantity_str of
        None \<Rightarrow> (d, \<lparr>overall_success = False, error_message = Some ValueError,
                      return_message = Inl ValueError\<rparr>)
      | Some qty \<Rightarrow>
          if qty \<le> 0
          then (d, \<lparr>overall_success = False, error_message = Some InvalidQuantityError,
                    return_message = Inl InvalidQuantityError\<rparr>)
          else
            let stock = available_stock (inventory d) s;
                (ok1, err1) = (if stock = [] then (False, Some NoStockFound) else (True, None));
                (ok2, err2) = (if total_available stock < qty
                               then (False, Some (InsufficientStockError (total_available stock) qty))
                               else (ok1, err1))
            in (case deduct_loop now uid stamp s stock qty (inventory d) [] of
                  (ledger', reserved_lots_locs, remaining) \<Rightarrow>
                    let first_reserved_lot =
                          (case reserved_lots_locs of [] \<Rightarrow> None | x # _ \<Rightarrow> Some (fst x));
                        first_reserved_loc =
                          (case reserved_lots_locs of [] \<Rightarrow> None | x # _ \<Rightarrow> Some (fst (snd x)))
                    in (\<lparr>inventory = ledger',
                         reservations = insert_reservation (reservations d) reservation_id s qty
                                          uid now first_reserved_lot first_reserved_loc stamp\<rparr>,
                        \<lparr>overall_success = ok2, error_message = err2,
                         return_message = Inr reserved_lots_locs\<rparr>)))"

text \<open>The deductions an outbound item or a reservation applied: those of its reply.\<close>

definition reply_deductions :: "error + deduction list \<Rightarrow> deduction list" where
  "reply_deductions reply = (case reply of Inl e \<Rightarrow> [] | Inr ds \<Rightarrow> ds)"

definition outbound_deductions ::
  "timestamp \<Rightarrow> user \<Rightarrow> string \<Rightarrow> string \<Rightarrow> int \<Rightarrow> inventory_row list \<Rightarrow> deduction list" where
  "outbound_deductions now uid stamp s qty ledger =
     reply_deductions (fst (snd (outbound_item now uid stamp s (Some qty) ledger)))"

definition reserve_deductions ::
  "timestamp \<Rightarrow> user \<Rightarrow> string \<Rightarrow> string \<Rightarrow> string \<Rightarrow> int \<Rightarrow> db \<Rightarrow> deduction list" where
  "reserve_deductions now uid stamp rid s qty d =
     reply_deductions (return_message (snd (process_reserve_item now uid stamp rid s (Some qty) d)))"

text \<open>
  \<open>process_reserve_pick\<close> (bot2, lines 304-360). The lookup is
  \<open>SELECT quantity, status FROM reservations WHERE reserve_id = rid AND sku = s AND
  reserved_lot = l AND reserved_location = c AND status = 'PENDING'\<close>, \<open>fetch_one\<close>; the
  update is \<open>UPDATE reservations SET status = 'PICKED', pickup_date = now, picked_by = uid
  WHERE reserve_id = rid\<close>.
\<close>

definition process_reserve_pick ::
  "timestamp \<Rightarrow> user \<Rightarrow> string \<Rightarrow> int option \<Rightarrow> string \<Rightarrow> string \<Rightarrow> string \<Rightarrow> db \<Rightarrow> db \<times> (error + unit)" where
  "process_reserve_pick now uid s quantity_str c l rid d =
     (case quantity_str of
        None \<Rightarrow> (d, Inl ValueError)
      | Some qty \<Rightarrow>
          if qty \<le> 0 then (d, Inl InvalidQuantityError)
          else
            (case find (\<lambda>r. reserve_id r = rid \<and> rsku r = s \<and> reserved_lot r = Some l \<and>
                             reserved_location r = Some c \<and> status r = PENDING) (reservations d) of
               None \<Rightarrow> (d, Inl ReservationNotFoundError)
             | Some reserve_record \<Rightarrow>
                 if qty > rquantity reserve_record
                 then (d, Inl (OverPickError qty (rquantity reserve_record)))
                 else
                   (d\<lparr>reservations :=
                        map (\<lambda>r. if reserve_id r = rid
                                 then r\<lparr>status := PICKED, pickup_date := Some now, picked_by := Some uid\<rparr>
                                 else r) (reservations d)\<rparr>,
                    Inr ())))"

text \<open>
  \<open>process_reserve_return\<close> (bot2, lines 362-422). The lookup has no condition on the
  status; the reservation update is \<open>UPDATE reservations SET status = 'RETURNED',
  return_date = now, returned_by = uid, return_reason = reason WHERE reserve_id = rid\<close>.
\<close>

definition process_reserve_return ::
  "timestamp \<Rightarrow> user \<Rightarrow> string \<Rightarrow> string \<Rightarrow> int option \<Rightarrow> string \<Rightarrow> string \<Rightarrow> string \<Rightarrow> string \<Rightarrow> db \<Rightarrow>
   db \<times> (error + unit)" where
  "process_reserve_return now uid stamp s quantity_str c l rid reason d =
     (case quantity_str of
        None \<Rightarrow> (d, Inl ValueError)
      | Some qty \<Rightarrow>
          if qty \<le> 0 then (d, Inl InvalidQuantityError)
          else
            (case find (\<lambda>r. reserve_id r = rid \<and> rsku r = s \<and> reserved_lot r = Some l \<and>
                             reserved_location r = Some c) (reservations d) of
               None \<Rightarrow> (d, Inl ReservationNotFoundError)
             | Some reserve_record \<Rightarrow>
                 (\<lparr>inventory = add_quantity (inventory d) qty now uid stamp s (Some l) (Some c),
                   reservations =
                     map (\<lambda>r. if reserve_id r = rid
                              then r\<lparr>status := RETURNED, return_date := Some now,
                                     returned_by := Some uid, return_reason := Some reason\<rparr>
                              else r) (reservations d)\<rparr>,
                  Inr ())))"

text \<open>
  \<open>process_reserve_cancel\<close> (bot2, lines 424-473). The lookup is \<open>SELECT sku, quantity,
  reserved_lot, reserved_location FROM reservations WHERE reserve_id = rid AND status =
  'PENDING'\<close>, \<open>fetch_one\<close>; the quantity goes back with \<open>UPDATE inventory SET quantity =
  quantity + ...\<close> at the reservation's SKU, lot and location.
\<close>

definition process_reserve_cancel ::
  "timestamp \<Rightarrow> user \<Rightarrow> string \<Rightarrow> string \<Rightarrow> string \<Rightarrow> db \<Rightarrow> db \<times> (error + unit)" where
  "process_reserve_cancel now uid stamp rid reason d =
     (case find (\<lambda>r. reserve_id r = rid \<and> status r = PENDING) (reservations d) of
        None \<Rightarrow> (d, Inl ReservationNotFoundError)
      | Some reserve_record \<Rightarrow>
          (\<lparr>inventory = add_quantity (inventory d) (rquantity reserve_record) now uid stamp
                          (rsku reserve_record) (reserved_lot reserve_record)
                          (reserved_location reserve_record),
            reservations =
              map (\<lambda>r. if reserve_id r = rid
                       then r\<lparr>status := CANCELLED, cancel_date := Some now,
                              cancelled_by := Some uid, cancel_reason := Some reason\<rparr>
                       else r) (reservations d)\<rparr>,
           Inr ()))"

text \<open>
  \<open>process_reserve_ck\<close> (bot2, lines 475-527): \<open>SELECT reserve_id, sku, quantity,
  reserved_lot, reserved_location, reservation_date, status FROM reservations WHERE
  status = 'PENDING' [AND sku = f] ORDER BY reservation_date ASC\<close>. The SKU condition is
  added when the filter is truthy in Python: neither \<open>None\<close> nor the empty string.
\<close>

type_synonym ck_row = "string \<times> string \<times> int \<times> string option \<times> string option \<times> timestamp \<times> res_status"

definition ck_columns :: "reservation \<Rightarrow> ck_row" where
  "ck_columns r = (reserve_id r, rsku r, rquantity r, reserved_lot r, reserved_location r,
                   reservation_date r, status r)"

definition ck_selected :: "string option \<Rightarrow> reservation \<Rightarrow> bool" where
  "ck_selected sku_filter r \<longleftrightarrow>
     status r = PENDING \<and>
     (case sku_filter of None \<Rightarrow> True | Some f \<Rightarrow> if f = [] then True else rsku r = f)"

definition process_reserve_ck :: "string option \<Rightarrow> db \<Rightarrow> db \<times> ck_row list" where
  "process_reserve_ck sku_filter d =
     (d, map ck_columns (sort_key reservation_date (filter (ck_selected sku_filter) (reservations d))))"

text \<open>
  \<open>handle_reserve_ck_command\<close> (bot2, lines 779-801). After the authorization check the
  handler evaluates \<open>sku_filter = args[0] if context.args else None\<close>. The function
  binds \<open>command_args\<close> but no \<open>args\<close>, and the module has no global of that name, so
  with a non-empty \<open>context.args\<close> the evaluation of \<open>args[0]\<close> raises \<open>NameError\<close>
  before \<open>process_reserve_ck\<close> is called; the handler does not catch it.
\<close>

definition handle_reserve_ck_command :: "bool \<Rightarrow> string list \<Rightarrow> db \<Rightarrow> error + (db \<times> ck_row list)" where
  "handle_reserve_ck_command user_allowed context_args d =
     (if \<not> user_allowed then Inl Unauthorized
      else if context_args \<noteq> [] then Inl NameError
      else Inr (process_reserve_ck None d))"

section \<open>Inbound, return and adjustment (bot1)\<close>

text \<open>
  An item of \<open>/in\<close> and \<open>/return\<close> is SKU, quantity text, lot, date text and location;
  the date parsed by \<open>strptime\<close> is \<open>None\<close> when the text is malformed. A success reply
  is the record's new quantity, or \<open>None\<close> when a record was inserted.
\<close>

type_synonym receive_item = "string \<times> int option \<times> string \<times> date option \<times> string"

definition inbound_item ::
  "timestamp \<Rightarrow> user \<Rightarrow> string \<Rightarrow> receive_item \<Rightarrow> inventory_row list \<Rightarrow>
   inventory_row list \<times> (error + int option) \<times> bool" where
  "inbound_item now uid stamp item ledger =
     (case item of (s, qty_str, l, date_str, c) \<Rightarrow>
        (case qty_str of
           None \<Rightarrow> (ledger, Inl ValueError, True)
         | Some qty \<Rightarrow>
             if qty \<le> 0 then (ledger, Inl InvalidQuantityError, False)
             else
               (case date_str of
                  None \<Rightarrow> (ledger, Inl InvalidDateError, False)
                | Some record_date \<Rightarrow>
                    (case select_quantity ledger s l c of
                       Some existing \<Rightarrow>
                         (update_quantity ledger (existing + qty) now uid stamp s l c,
                          Inr (Some (existing + qty)), False)
                     | None \<Rightarrow>
                         (insert_inventory ledger s l c qty record_date uid stamp,
                          Inr None, False)))))"

definition process_inbound_item ::
  "timestamp \<Rightarrow> user \<Rightarrow> string \<Rightarrow> receive_item list \<Rightarrow> db \<Rightarrow> db \<times> (error + int option) list \<times> final_status" where
  "process_inbound_item now uid stamp items d =
     (case item_loop (inbound_item now uid stamp) items (inventory d) of
        (ledger', results, all_ok) \<Rightarrow>
          (d\<lparr>inventory := ledger'\<rparr>, results, if all_ok then SUCCESS else FAILED))"

definition return_item ::
  "timestamp \<Rightarrow> user \<Rightarrow> string \<Rightarrow> receive_item \<Rightarrow> inventory_row list \<Rightarrow>
   inventory_row list \<times> (error + int option) \<times> bool" where
  "return_item now uid stamp item ledger =
     (case item of (s, qty_str, l, date_str, c) \<Rightarrow>
        (case qty_str of
           None \<Rightarrow> (ledger, Inl ValueError, True)
         | Some qty \<Rightarrow>
             if qty \<le> 0 then (ledger, Inl InvalidQuantityError, False)
             else
               (case date_str of
                  None \<Rightarrow> (ledger, Inl InvalidDateError, False)
                | Some returned_on \<Rightarrow>
                    (case select_quantity ledger s l c of
                       Some existing \<Rightarrow>
                         (update_quantity ledger (existing + qty) now uid stamp s l c,
                          Inr (Some (existing + qty)), False)
                     | None \<Rightarrow>
                         (insert_inventory ledger s l c qty returned_on uid stamp,
                          Inr None, False)))))"

definition process_return_item ::
  "timestamp \<Rightarrow> user \<Rightarrow> string \<Rightarrow> receive_item list \<Rightarrow> db \<Rightarrow> db \<times> (error + int option) list \<times> final_status" where
  "process_return_item now uid stamp items d =
     (case item_loop (return_item now uid stamp) items (inventory d) of
        (ledger', results, all_ok) \<Rightarrow>
          (d\<lparr>inventory := ledger'\<rparr>, results, if all_ok then SUCCESS else FAILED))"

text \<open>
  An item of \<open>/adjust_in\<close> adds a reason; its quantity is a signed change. A success
  reply is the record's new quantity. The negative-quantity rejection leaves the pass
  with \<open>continue\<close>; the missing record does not.
\<close>

type_synonym adjust_item = "string \<times> int option \<times> string \<times> date option \<times> string \<times> string"

definition adjust_in_item ::
  "timestamp \<Rightarrow> user \<Rightarrow> string \<Rightarrow> adjust_item \<Rightarrow> inventory_row list \<Rightarrow>
   inventory_row list \<times> (error + int) \<times> bool" where
  "adjust_in_item now uid stamp item ledger =
     (case item of (s, qty_str, l, date_str, c, reason) \<Rightarrow>
        (case qty_str of
           None \<Rightarrow> (ledger, Inl ValueError, True)
         | Some adjustment_quantity \<Rightarrow>
             (case date_str of
                None \<Rightarrow> (ledger, Inl InvalidDateError, False)
              | Some record_date \<Rightarrow>
                  (case select_quantity ledger s l c of
                     Some current_quantity \<Rightarrow>
                       if current_quantity + adjustment_quantity < 0
                       then (ledger, Inl (NegativeQuantityError (current_quantity + adjustment_quantity)), False)
                       else (update_quantity ledger (current_quantity + adjustment_quantity) now uid stamp s l c,
                             Inr (current_quantity + adjustment_quantity), False)
                   | None \<Rightarrow> (ledger, Inl RecordNotFoundError, True)))))"

definition process_adjust_in_item ::
  "timestamp \<Rightarrow> user \<Rightarrow> string \<Rightarrow> adjust_item list \<Rightarrow> db \<Rightarrow> db \<times> (error + int) list \<times> final_status" where
  "process_adjust_in_item now uid stamp items d =
     (case item_loop (adjust_in_item now uid stamp) items (inventory d) of
        (ledger', results, all_ok) \<Rightarrow>
          (d\<lparr>inventory := ledger'\<rparr>, results, if all_ok then SUCCESS else FAILED))"

section \<open>A sample warehouse\<close>

text \<open>
  The scenario of the specification's section 8: SKU X with lot A (inbound 2025-01-01,
  5 units) and lot B (inbound 2025-02-01, 10 units). Lot B comes first in the store's
  row order, so the order of allocation is the query's doing.
\<close>

definition lot_A :: inventory_row where
  "lot_A = \<lparr>sku = ''X'', lot = ''A'', location = ''L1'', quantity = 5, inbound_date = 20250101,
            created_by = 1, last_updated_date = None, last_updated_by = None, id_stamp = ''IN-1''\<rparr>"

definition lot_B :: inventory_row where
  "lot_B = \<lparr>sku = ''X'', lot = ''B'', location = ''L2'', quantity = 10, inbound_date = 20250201,
            created_by = 1, last_updated_date = None, last_updated_by = None, id_stamp = ''IN-2''\<rparr>"

definition stock_db :: db where
  "stock_db = \<lparr>inventory = [lot_B, lot_A], reservations = []\<rparr>"

text \<open>The sample warehouse after \<open>/reserve X 8\<close>, and after the pick of that
  reservation.\<close>

definition reserved_db :: db where
  "reserved_db = fst (process_reserve_item 7 1 ''RESV-1'' ''RES-1'' ''X'' (Some 8) stock_db)"

definition picked_db :: db where
  "picked_db = fst (process_reserve_pick 8 1 ''X'' (Some 5) ''L1'' ''A'' ''RES-1'' reserved_db)"

lemmas sample_defs = lot_A_def lot_B_def stock_db_def reserved_db_def picked_db_def

section \<open>Properties of the allocation walk\<close>

lemma deduct_loop_deductions:
  "fst (snd (deduct_loop now uid stamp s rows remaining ledger ded)) = ded @ allocate_walk remaining rows"
  by (induction rows arbitrary: remaining ledger ded) (simp_all add: Let_def)

lemma allocate_walk_sum:
  "list_all (\<lambda>r. 0 < quantity r) rows \<Longrightarrow> 0 \<le> remaining \<Longrightarrow>
   deducted (allocate_walk remaining rows) = min remaining (total_available rows)"
proof (induction rows arbitrary: remaining)
  case Nil
  then show ?case by (simp add: deducted_def total_available_def)
next
  case (Cons r rows)
  have pos: "0 < quantity r" and rest: "list_all (\<lambda>r. 0 < quantity r) rows"
    using Cons.prems(1) by simp_all
  have tot: "0 \<le> total_available rows"
    using rest by (induction rows) (auto simp: total_available_def)
  show ?case
  proof (cases "remaining \<le> 0")
    case True
    with Cons.prems(2) pos tot show ?thesis
      by (simp add: deducted_def total_available_def)
  next
    case False
    have "0 \<le> remaining - min remaining (quantity r)" by simp
    from Cons.IH [OF rest this] False tot pos show ?thesis
      by (auto simp: deducted_def total_available_def min_def)
  qed
qed

lemma available_stock_positive: "list_all (\<lambda>r. 0 < quantity r) (available_stock ledger s)"
  by (simp add: available_stock_def list_all_iff)


lemma deduct_loop_result:
  "deduct_loop now uid stamp s rows remaining ledger ded = (ledger', ds, rem') \<Longrightarrow>
   ds = ded @ allocate_walk remaining rows"
  using deduct_loop_deductions [of now uid stamp s rows remaining ledger ded] by simp

lemma total_available_Nil [simp]: "total_available [] = 0"
  by (simp add: total_available_def)

lemma outbound_deductions_eq:
  "0 < qty \<Longrightarrow>
   outbound_deductions now uid stamp s qty ledger =
     (if total_available (available_stock ledger s) < qty then []
      else allocate_walk qty (available_stock ledger s))"
  by (auto simp: outbound_deductions_def outbound_item_def reply_deductions_def Let_def
           split: prod.splits dest: deduct_loop_result)

lemma reserve_deductions_eq:
  "0 < qty \<Longrightarrow>
   reserve_deductions now uid stamp rid s qty d = allocate_walk qty (available_stock (inventory d) s)"
  by (auto simp: reserve_deductions_def process_reserve_item_def reply_deductions_def Let_def
           split: prod.splits dest: deduct_loop_result)

section \<open>Reservation with insufficient stock\<close>

lemma outbound_insufficient_unchanged:
  "0 < qty \<Longrightarrow> total_available (available_stock ledger s) < qty \<Longrightarrow>
   fst (outbound_item now uid stamp s (Some qty) ledger) = ledger"
  by (simp add: outbound_item_def Let_def)

text \<open>
  C1. A reservation of more than the SKU has available is to fail with
  \<open>InsufficientStockError\<close> and to leave the ledger and the reservations as they were.
  The code does not: \<open>/reserve X 100\<close> against 15 available units logs the error, and
  then takes all 15 units out of the ledger and inserts a PENDING reservation of 100.
\<close>

theorem reserve_insufficient_stock_still_deducts:
  "process_reserve_item 7 1 ''RESV-1'' ''RES-1'' ''X'' (Some 100) stock_db =
     (\<lparr>inventory =
         [lot_B\<lparr>quantity := 0, last_updated_date := Some 7, last_updated_by := Some 1,
                id_stamp := ''RESV-1''\<rparr>,
          lot_A\<lparr>quantity := 0, last_updated_date := Some 7, last_updated_by := Some 1,
                id_stamp := ''RESV-1''\<rparr>],
       reservations =
         [\<lparr>reserve_id = ''RES-1'', rsku = ''X'', rquantity = 100, reserved_by = 1,
           reservation_date = 7, status = PENDING, reserved_lot = Some ''A'',
           reserved_location = Some ''L1'', rid_stamp = ''RESV-1'', pickup_date = None,
           picked_by = None, return_date = None, returned_by = None, return_reason = None,
           cancel_date = None, cancelled_by = None, cancel_reason = None\<rparr>]\<rparr>,
      \<lparr>overall_success = False, error_message = Some (InsufficientStockError 15 100),
       return_message = Inr [(''A'', ''L1'', 5), (''B'', ''L2'', 10)]\<rparr>)"
  by (simp add: process_reserve_item_def sample_defs available_stock_def total_available_def
        update_quantity_def key_matches_def insert_reservation_def Let_def)

section \<open>A returned reservation that was already picked\<close>

text \<open>
  C5. A reservation's status is to move only from PENDING to PICKED, RETURNED or
  CANCELLED, and never again afterwards. The return operation breaks this: its lookup
  does not ask for the status and its update sets RETURNED for the reservation id, so
  the picked reservation of the sample warehouse becomes RETURNED.
\<close>

theorem return_changes_picked_reservation:
  "map status (reservations picked_db) = [PICKED]
   \<and> snd (process_reserve_return 9 1 ''RETRN-1'' ''X'' (Some 5) ''L1'' ''A'' ''RES-1'' ''damaged'' picked_db)
       = Inr ()
   \<and> map status (reservations
        (fst (process_reserve_return 9 1 ''RETRN-1'' ''X'' (Some 5) ''L1'' ''A'' ''RES-1'' ''damaged'' picked_db)))
       = [RETURNED]"
  by (simp add: process_reserve_return_def process_reserve_pick_def process_reserve_item_def
        sample_defs available_stock_def total_available_def update_quantity_def key_matches_def
        insert_reservation_def add_quantity_def Let_def)

section \<open>The reservation check with a SKU filter\<close>

lemma ck_selected_iff:
  "ck_selected f r \<longleftrightarrow> status r = PENDING \<and> (f = None \<or> f = Some [] \<or> f = Some (rsku r))"
  by (auto simp: ck_selected_def split: option.splits)

lemma reserve_ck_lists_pending:
  "fst (process_reserve_ck f d) = d
   \<and> (\<exists>rows. snd (process_reserve_ck f d) = map ck_columns rows
         \<and> sorted (map reservation_date rows)
         \<and> set rows = {r \<in> set (reservations d).
                          status r = PENDING \<and> (f = None \<or> f = Some [] \<or> f = Some (rsku r))}
         \<and> length rows = length (filter (ck_selected f) (reservations d)))"
proof -
  let ?rows = "sort_key reservation_date (filter (ck_selected f) (reservations d))"
  have "set ?rows = {r \<in> set (reservations d).
                          status r = PENDING \<and> (f = None \<or> f = Some [] \<or> f = Some (rsku r))}"
    by (auto simp: ck_selected_iff)
  moreover have "sorted (map reservation_date ?rows)" by simp
  moreover have "length ?rows = length (filter (ck_selected f) (reservations d))" by simp
  moreover have "snd (process_reserve_ck f d) = map ck_columns ?rows"
    by (simp add: process_reserve_ck_def)
  moreover have "fst (process_reserve_ck f d) = d"
    by (simp add: process_reserve_ck_def)
  ultimately show ?thesis by blast
qed

text \<open>
  C9. The check is to return the PENDING reservations, restricted to the given SKU when
  a filter is supplied. \<open>process_reserve_ck\<close> does, but the command handler never
  passes a filter to it: with an argument, \<open>handle_reserve_ck_command\<close> stops with
  \<open>NameError\<close>, here against a table holding one PENDING reservation of SKU X.
\<close>

theorem reserve_ck_with_filter_raises:
  "handle_reserve_ck_command True [''X''] reserved_db = Inl NameError
   \<and> snd (process_reserve_ck (Some ''X'') reserved_db)
       = [(''RES-1'', ''X'', 8, Some ''A'', Some ''L1'', 7, PENDING)]"
  by (simp add: handle_reserve_ck_command_def process_reserve_ck_def ck_selected_def ck_columns_def
        process_reserve_item_def sample_defs available_stock_def total_available_def
        update_quantity_def key_matches_def insert_reservation_def Let_def)


section \<open>Rejected adjustments\<close>

text \<open>
  C4. An adjustment (a well-formed item: the quantity text is an integer and the date
  text a date) on an existing record of quantity \<open>q\<close> whose change would make the
  quantity negative is answered with \<open>NegativeQuantityError\<close>, and an adjustment on a
  key with no record with \<open>RecordNotFoundError\<close>; in both cases no statement is
  written: the tables are what they were, so the quantity is still \<open>q\<close> and no record
  was created. The tables are also unchanged when the date text is malformed.
\<close>

theorem adjustment_rejected:
  "(select_quantity (inventory d) s l c = Some q \<and> q + delta < 0 \<longrightarrow>
      process_adjust_in_item now uid stamp [(s, Some delta, l, Some dt, c, reason)] d
        = (d, [Inl (NegativeQuantityError (q + delta))], SUCCESS)
      \<and> fst (process_adjust_in_item now uid stamp [(s, Some delta, l, date_str, c, reason)] d) = d
      \<and> select_quantity (inventory (fst (process_adjust_in_item now uid stamp
            [(s, Some delta, l, date_str, c, reason)] d))) s l c = Some q)
   \<and> (select_quantity (inventory d) s l c = None \<longrightarrow>
      process_adjust_in_item now uid stamp [(s, Some delta, l, Some dt, c, reason)] d
        = (d, [Inl RecordNotFoundError], FAILED)
      \<and> fst (process_adjust_in_item now uid stamp [(s, Some delta, l, date_str, c, reason)] d) = d)"
  by (cases date_str) (simp_all add: process_adjust_in_item_def adjust_in_item_def)


theorem adjustment_rejected_witness:
  "process_adjust_in_item 7 1 ''ADJ-1'' [(''X'', Some (- 6), ''A'', Some 20250301, ''L1'', ''count'')] stock_db
     = (stock_db, [Inl (NegativeQuantityError (- 1))], SUCCESS)
   \<and> process_adjust_in_item 7 1 ''ADJ-1'' [(''X'', Some 3, ''C'', Some 20250301, ''L1'', ''count'')] stock_db
     = (stock_db, [Inl RecordNotFoundError], FAILED)"
proof -
  have a: "select_quantity (inventory stock_db) ''X'' ''A'' ''L1'' = Some 5"
    by (simp add: sample_defs select_quantity_def key_matches_def)
  have b: "select_quantity (inventory stock_db) ''X'' ''C'' ''L1'' = None"
    by (simp add: sample_defs select_quantity_def key_matches_def)
  show ?thesis
    using adjustment_rejected [of stock_db "''X''" "''A''" "''L1''" 5 "- 6" 7 1 "''ADJ-1''" 20250301 "''count''" "Some 20250301"]
          adjustment_rejected [of stock_db "''X''" "''C''" "''L1''" 5 3 7 1 "''ADJ-1''" 20250301 "''count''" "Some 20250301"]
          a b
    by simp
qed

section \<open>Picking a reservation\<close>

lemma filter_other_ids:
  assumes "\<And>x. reserve_id (f x) = reserve_id x"
  shows "filter (\<lambda>x. reserve_id x \<noteq> rid) (map (\<lambda>x. if reserve_id x = rid then f x else x) xs)
           = filter (\<lambda>x. reserve_id x \<noteq> rid) xs"
  by (induction xs) (simp_all add: assms)

lemma marked_ids:
  assumes "\<And>x. reserve_id (f x) = reserve_id x" and "\<And>x. P (f x)"
  shows "\<forall>r' \<in> set (map (\<lambda>x. if reserve_id x = rid then f x else x) xs). reserve_id r' = rid \<longrightarrow> P r'"
  by (induction xs) (simp_all add: assms)


text \<open>
  C7, as stated: every pick of a quantity not above the reserved quantity succeeds. It
  does not for a quantity of zero (or less): the pick of 0 units of the sample
  reservation of 8 is rejected as an invalid quantity and the reservation stays PENDING.
\<close>

theorem pick_zero_quantity_counterexample:
  "(0::int) \<le> 8
   \<and> map rquantity (reservations reserved_db) = [8]
   \<and> process_reserve_pick 8 1 ''X'' (Some 0) ''L1'' ''A'' ''RES-1'' reserved_db
       = (reserved_db, Inl InvalidQuantityError)
   \<and> snd (process_reserve_pick 8 1 ''X'' (Some 0) ''L1'' ''A'' ''RES-1'' reserved_db) \<noteq> Inr ()
   \<and> map status (reservations (fst (process_reserve_pick 8 1 ''X'' (Some 0) ''L1'' ''A'' ''RES-1'' reserved_db)))
       = [PENDING]"
  by (simp add: process_reserve_pick_def process_reserve_item_def sample_defs available_stock_def
        total_available_def update_quantity_def key_matches_def insert_reservation_def Let_def)

text \<open>
  C7, amended. Against a PENDING reservation \<open>r\<close> matching the id, SKU, lot and
  location: a pick of a quantity of zero or less fails with \<open>InvalidQuantityError\<close>; a
  pick of a positive quantity above the reserved quantity fails with \<open>OverPickError\<close>;
  a pick of a positive quantity up to the reserved quantity succeeds and stamps the
  reservation PICKED with the picking time and user, leaving every other reservation
  as it was. In each case the inventory ledger is unchanged, and a failed pick changes
  nothing at all.
\<close>

theorem pick_frame:
  assumes "find (\<lambda>r. reserve_id r = rid \<and> rsku r = s \<and> reserved_lot r = Some l \<and>
                      reserved_location r = Some c \<and> status r = PENDING) (reservations d) = Some r"
  shows "(qty \<le> 0 \<longrightarrow> process_reserve_pick now uid s (Some qty) c l rid d = (d, Inl InvalidQuantityError))
       \<and> (0 < qty \<and> rquantity r < qty \<longrightarrow>
            process_reserve_pick now uid s (Some qty) c l rid d = (d, Inl (OverPickError qty (rquantity r))))
       \<and> (0 < qty \<and> qty \<le> rquantity r \<longrightarrow>
            snd (process_reserve_pick now uid s (Some qty) c l rid d) = Inr ()
            \<and> (\<exists>r' \<in> set (reservations (fst (process_reserve_pick now uid s (Some qty) c l rid d))).
                  reserve_id r' = rid)
            \<and> (\<forall>r' \<in> set (reservations (fst (process_reserve_pick now uid s (Some qty) c l rid d))).
                  reserve_id r' = rid \<longrightarrow>
                  status r' = PICKED \<and> pickup_date r' = Some now \<and> picked_by r' = Some uid)
            \<and> filter (\<lambda>x. reserve_id x \<noteq> rid) (reservations (fst (process_reserve_pick now uid s (Some qty) c l rid d)))
                = filter (\<lambda>x. reserve_id x \<noteq> rid) (reservations d))
       \<and> inventory (fst (process_reserve_pick now uid s (Some qty) c l rid d)) = inventory d"
proof -
  let ?upd = "\<lambda>x. if reserve_id x = rid
                 then x\<lparr>status := PICKED, pickup_date := Some now, picked_by := Some uid\<rparr> else x"
  have mem: "r \<in> set (reservations d)" "reserve_id r = rid"
    using assms by (auto simp: find_Some_iff)
  have ok: "process_reserve_pick now uid s (Some qty) c l rid d
              = (d\<lparr>reservations := map ?upd (reservations d)\<rparr>, Inr ())"
    if "0 < qty" "qty \<le> rquantity r"
    using that assms by (simp add: process_reserve_pick_def)
  have ex: "\<exists>r' \<in> set (map ?upd (reservations d)). reserve_id r' = rid"
    using mem by (intro bexI [of _ "?upd r"]) simp_all
  have all: "\<forall>r' \<in> set (map ?upd (reservations d)). reserve_id r' = rid \<longrightarrow>
               status r' = PICKED \<and> pickup_date r' = Some now \<and> picked_by r' = Some uid"
    by (rule marked_ids) simp_all
  have rest: "filter (\<lambda>x. reserve_id x \<noteq> rid) (map ?upd (reservations d))
                = filter (\<lambda>x. reserve_id x \<noteq> rid) (reservations d)"
    by (rule filter_other_ids) simp
  have inv: "inventory (fst (process_reserve_pick now uid s (Some qty) c l rid d)) = inventory d"
    using assms by (simp add: process_reserve_pick_def)
  have low: "qty \<le> 0 \<longrightarrow> process_reserve_pick now uid s (Some qty) c l rid d = (d, Inl InvalidQuantityError)"
    by (simp add: process_reserve_pick_def)
  have over: "0 < qty \<and> rquantity r < qty \<longrightarrow>
      process_reserve_pick now uid s (Some qty) c l rid d = (d, Inl (OverPickError qty (rquantity r)))"
    using assms by (simp add: process_reserve_pick_def)
  have succ: "0 < qty \<and> qty \<le> rquantity r \<longrightarrow>
            snd (process_reserve_pick now uid s (Some qty) c l rid d) = Inr ()
            \<and> (\<exists>r' \<in> set (reservations (fst (process_reserve_pick now uid s (Some qty) c l rid d))).
                  reserve_id r' = rid)
            \<and> (\<forall>r' \<in> set (reservations (fst (process_reserve_pick now uid s (Some qty) c l rid d))).
                  reserve_id r' = rid \<longrightarrow>
                  status r' = PICKED \<and> pickup_date r' = Some now \<and> picked_by r' = Some uid)
            \<and> filter (\<lambda>x. reserve_id x \<noteq> rid) (reservations (fst (process_reserve_pick now uid s (Some qty) c l rid d)))
                = filter (\<lambda>x. reserve_id x \<noteq> rid) (reservations d)"
  proof
    assume a: "0 < qty \<and> qty \<le> rquantity r"
    have eq: "process_reserve_pick now uid s (Some qty) c l rid d
                = (d\<lparr>reservations := map ?upd (reservations d)\<rparr>, Inr ())"
      using ok a by blast
    have res: "reservations (fst (process_reserve_pick now uid s (Some qty) c l rid d))
                 = map ?upd (reservations d)"
      by (simp add: eq)
    have s: "snd (process_reserve_pick now uid s (Some qty) c l rid d) = Inr ()"
      by (simp add: eq)
    from s ex all rest show "snd (process_reserve_pick now uid s (Some qty) c l rid d) = Inr ()
            \<and> (\<exists>r' \<in> set (reservations (fst (process_reserve_pick now uid s (Some qty) c l rid d))).
                  reserve_id r' = rid)
            \<and> (\<forall>r' \<in> set (reservations (fst (process_reserve_pick now uid s (Some qty) c l rid d))).
                  reserve_id r' = rid \<longrightarrow>
                  status r' = PICKED \<and> pickup_date r' = Some now \<and> picked_by r' = Some uid)
            \<and> filter (\<lambda>x. reserve_id x \<noteq> rid) (reservations (fst (process_reserve_pick now uid s (Some qty) c l rid d)))
                = filter (\<lambda>x. reserve_id x \<noteq> rid) (reservations d)"
      unfolding res by (intro conjI)
  qed
  from low over succ inv show ?thesis
    by (intro conjI)
qed


theorem pick_frame_witness:
  "process_reserve_pick 8 1 ''X'' (Some 20) ''L1'' ''A'' ''RES-1'' reserved_db
     = (reserved_db, Inl (OverPickError 20 8))
   \<and> snd (process_reserve_pick 8 1 ''X'' (Some 5) ''L1'' ''A'' ''RES-1'' reserved_db) = Inr ()
   \<and> inventory (fst (process_reserve_pick 8 1 ''X'' (Some 5) ''L1'' ''A'' ''RES-1'' reserved_db))
       = inventory reserved_db"
proof -
  let ?r = "\<lparr>reserve_id = ''RES-1'', rsku = ''X'', rquantity = 8, reserved_by = 1,
           reservation_date = 7, status = PENDING, reserved_lot = Some ''A'',
           reserved_location = Some ''L1'', rid_stamp = ''RESV-1'', pickup_date = None,
           picked_by = None, return_date = None, returned_by = None, return_reason = None,
           cancel_date = None, cancelled_by = None, cancel_reason = None\<rparr>"
  have f: "find (\<lambda>r. reserve_id r = ''RES-1'' \<and> rsku r = ''X'' \<and> reserved_lot r = Some ''A'' \<and>
                      reserved_location r = Some ''L1'' \<and> status r = PENDING) (reservations reserved_db)
             = Some ?r"
    by (simp add: process_reserve_item_def sample_defs available_stock_def total_available_def
          update_quantity_def key_matches_def insert_reservation_def Let_def)
  show ?thesis
    using pick_frame [OF f, of 20 8 1] pick_frame [OF f, of 5 8 1] by simp
qed

section \<open>Adding stock to an existing record\<close>

lemma key_matches_key: "key_matches s l c r \<longleftrightarrow> inventory_key r = (s, l, c)"
  by (auto simp: key_matches_def inventory_key_def)

lemma update_quantity_dates:
  "map inbound_date (update_quantity ledger v now uid stamp s l c) = map inbound_date ledger"
  by (simp add: update_quantity_def comp_def)

lemma update_quantity_keys:
  "map inventory_key (update_quantity ledger v now uid stamp s l c) = map inventory_key ledger"
  by (simp add: update_quantity_def comp_def inventory_key_def)

lemma select_quantity_update:
  "select_quantity ledger s l c = Some q \<Longrightarrow>
   select_quantity (update_quantity ledger v now uid stamp s l c) s l c = Some v"
  by (induction ledger) (auto simp: select_quantity_def update_quantity_def key_matches_def)

lemma insort_key_map:
  assumes "\<And>x. g (f x) = g x"
  shows "insort_key g (f x) (map f xs) = map f (insort_key g x xs)"
  using assms by (induction xs) simp_all

lemma sort_key_map:
  assumes "\<And>x. g (f x) = g x"
  shows "sort_key g (map f xs) = map f (sort_key g xs)"
  using assms by (induction xs) (simp_all add: insort_key_map)

lemma available_stock_update:
  assumes "distinct (map inventory_key ledger)" and "select_quantity ledger s l c = Some q"
    and "0 < q" and "0 < v"
  shows "map inventory_key (available_stock (update_quantity ledger v now uid stamp s l c) s')
       = map inventory_key (available_stock ledger s')"
proof -
  let ?f = "\<lambda>r. if key_matches s l c r
              then r\<lparr>quantity := v, last_updated_date := Some now,
                     last_updated_by := Some uid, id_stamp := stamp\<rparr>
              else r"
  have pos: "\<forall>r \<in> set ledger. key_matches s l c r \<longrightarrow> 0 < quantity r"
    using assms(1,2)
  proof (induction ledger)
    case Nil
    then show ?case by simp
  next
    case (Cons a ledger)
    show ?case
    proof (cases "key_matches s l c a")
      case True
      then have "\<forall>r \<in> set ledger. \<not> key_matches s l c r"
        using Cons.prems(1) by (auto simp: key_matches_key image_iff)
      with True Cons.prems(2) assms(3) show ?thesis
        by (auto simp: select_quantity_def)
    next
      case False
      with Cons show ?thesis by (auto simp: select_quantity_def)
    qed
  qed
  have "filter (\<lambda>r. sku r = s' \<and> 0 < quantity r) (map ?f ledger)
          = map ?f (filter (\<lambda>r. sku r = s' \<and> 0 < quantity r) ledger)"
    using pos assms(4) by (induction ledger) auto
  then have "available_stock (update_quantity ledger v now uid stamp s l c) s'
               = map ?f (available_stock ledger s')"
    by (simp add: available_stock_def update_quantity_def sort_key_map)
  then show ?thesis
    by (simp add: comp_def inventory_key_def)
qed


text \<open>
  C10. An inbound or a return item of a positive quantity that targets an existing
  record writes the sum of the old and the added quantity to it, as one
  \<open>UPDATE\<close>; both operations do the same. The inbound dates and the keys of all rows
  are unchanged (the item's date is not used), and when keys are unique and the record
  was already in stock, every SKU's allocation order is the same as before.
\<close>

theorem inbound_keeps_inbound_date:
  assumes "select_quantity (inventory d) s l c = Some q" and "0 < qty"
  shows "process_inbound_item now uid stamp [(s, Some qty, l, Some dt, c)] d
           = (d\<lparr>inventory := update_quantity (inventory d) (q + qty) now uid stamp s l c\<rparr>,
              [Inr (Some (q + qty))], SUCCESS)
       \<and> process_return_item now uid stamp [(s, Some qty, l, Some dt, c)] d
           = process_inbound_item now uid stamp [(s, Some qty, l, Some dt, c)] d
       \<and> select_quantity (inventory (fst (process_inbound_item now uid stamp [(s, Some qty, l, Some dt, c)] d))) s l c
           = Some (q + qty)
       \<and> map inbound_date (inventory (fst (process_inbound_item now uid stamp [(s, Some qty, l, Some dt, c)] d)))
           = map inbound_date (inventory d)
       \<and> map inventory_key (inventory (fst (process_inbound_item now uid stamp [(s, Some qty, l, Some dt, c)] d)))
           = map inventory_key (inventory d)
       \<and> (distinct (map inventory_key (inventory d)) \<and> 0 < q \<longrightarrow>
            (\<forall>s'. map inventory_key (available_stock
                     (inventory (fst (process_inbound_item now uid stamp [(s, Some qty, l, Some dt, c)] d))) s')
                 = map inventory_key (available_stock (inventory d) s')))"
proof -
  have run: "process_inbound_item now uid stamp [(s, Some qty, l, Some dt, c)] d
           = (d\<lparr>inventory := update_quantity (inventory d) (q + qty) now uid stamp s l c\<rparr>,
              [Inr (Some (q + qty))], SUCCESS)"
    using assms by (simp add: process_inbound_item_def inbound_item_def)
  have ret: "process_return_item now uid stamp [(s, Some qty, l, Some dt, c)] d
           = (d\<lparr>inventory := update_quantity (inventory d) (q + qty) now uid stamp s l c\<rparr>,
              [Inr (Some (q + qty))], SUCCESS)"
    using assms by (simp add: process_return_item_def return_item_def)
  have order: "map inventory_key (available_stock (update_quantity (inventory d) (q + qty) now uid stamp s l c) s')
                 = map inventory_key (available_stock (inventory d) s')"
    if "distinct (map inventory_key (inventory d))" "0 < q" for s'
    using that assms by (intro available_stock_update [where q = q]) simp_all
  show ?thesis
    unfolding ret run using assms(1) order
    by (simp add: update_quantity_dates update_quantity_keys select_quantity_update)
qed


theorem inbound_keeps_inbound_date_witness:
  "select_quantity (inventory (fst (process_inbound_item 7 1 ''IN-3'' [(''X'', Some 4, ''A'', Some 20250401, ''L1'')] stock_db)))
       ''X'' ''A'' ''L1'' = Some 9
   \<and> map inbound_date (inventory (fst (process_inbound_item 7 1 ''IN-3'' [(''X'', Some 4, ''A'', Some 20250401, ''L1'')] stock_db)))
       = [20250201, 20250101]
   \<and> map inventory_key (available_stock
        (inventory (fst (process_inbound_item 7 1 ''IN-3'' [(''X'', Some 4, ''A'', Some 20250401, ''L1'')] stock_db))) ''X'')
       = [(''X'', ''A'', ''L1''), (''X'', ''B'', ''L2'')]"
proof -
  have a: "select_quantity (inventory stock_db) ''X'' ''A'' ''L1'' = Some 5"
    by (simp add: sample_defs select_quantity_def key_matches_def)
  have d: "distinct (map inventory_key (inventory stock_db))"
    by (simp add: sample_defs inventory_key_def)
  have dates: "map inbound_date (inventory stock_db) = [20250201, 20250101]"
    by (simp add: sample_defs)
  have order: "map inventory_key (available_stock (inventory stock_db) ''X'')
                 = [(''X'', ''A'', ''L1''), (''X'', ''B'', ''L2'')]"
    by (simp add: sample_defs available_stock_def inventory_key_def)
  have p4: "(0::int) < 4" and p5: "(0::int) < 5" by simp_all
  note t = inbound_keeps_inbound_date [OF a p4, of 7 1 "''IN-3''" 20250401]
  note q = t [THEN conjunct2, THEN conjunct2, THEN conjunct1]
  note dt = t [THEN conjunct2, THEN conjunct2, THEN conjunct2, THEN conjunct1]
  note ord = t [THEN conjunct2, THEN conjunct2, THEN conjunct2, THEN conjunct2, THEN conjunct2,
                THEN mp, OF conjI [OF d p5], THEN spec, of "''X''"]
  show ?thesis
    unfolding q dt ord dates order by simp
qed


section \<open>The walk in order of inbound date\<close>

lemma total_available_Cons [simp]: "total_available (r # rows) = quantity r + total_available rows"
  by (simp add: total_available_def)

lemma total_available_append [simp]:
  "total_available (xs @ ys) = total_available xs + total_available ys"
  by (simp add: total_available_def)

lemma total_available_nonneg: "list_all (\<lambda>r. 0 < quantity r) rows \<Longrightarrow> 0 \<le> total_available rows"
  by (induction rows) auto

lemma list_all_take: "list_all P xs \<Longrightarrow> list_all P (take k xs)"
  by (auto simp: list_all_iff dest: in_set_takeD)

lemma list_all_drop: "list_all P xs \<Longrightarrow> list_all P (drop k xs)"
  by (auto simp: list_all_iff dest: in_set_dropD)

lemma allocate_walk_length: "length (allocate_walk q rows) \<le> length rows"
  by (induction rows arbitrary: q) simp_all

lemma allocate_walk_nth:
  "list_all (\<lambda>r. 0 < quantity r) rows \<Longrightarrow> k < length (allocate_walk q rows) \<Longrightarrow>
   allocate_walk q rows ! k
     = (lot (rows ! k), location (rows ! k), min (q - total_available (take k rows)) (quantity (rows ! k)))
   \<and> 0 < q - total_available (take k rows)"
proof (induction rows arbitrary: q k)
  case Nil
  then show ?case by simp
next
  case (Cons r rows)
  have pos: "0 < q" using Cons.prems(2) by (auto split: if_splits)
  have rest: "list_all (\<lambda>r. 0 < quantity r) rows" using Cons.prems(1) by simp
  show ?case
  proof (cases k)
    case 0
    with pos show ?thesis by simp
  next
    case (Suc k')
    have len: "k' < length (allocate_walk (q - min q (quantity r)) rows)"
      using Cons.prems(2) pos Suc by simp
    note ih = Cons.IH [OF rest len]
    have nn: "0 \<le> total_available (take k' rows)"
      by (rule total_available_nonneg [OF list_all_take [OF rest]])
    have m: "min q (quantity r) = quantity r"
      using ih nn by (simp add: min_def split: if_splits)
    show ?thesis
      using ih pos Suc m by (simp add: algebra_simps)
  qed
qed

lemma total_available_take_mono:
  assumes "list_all (\<lambda>r. 0 < quantity r) rows" and "i \<le> j"
  shows "total_available (take i rows) \<le> total_available (take j rows)"
proof -
  have "take j rows = take i rows @ take (j - i) (drop i rows)"
    using assms(2) by (metis le_add_diff_inverse take_add)
  moreover have "0 \<le> total_available (take (j - i) (drop i rows))"
    by (intro total_available_nonneg list_all_take list_all_drop assms(1))
  ultimately show ?thesis by simp
qed

lemma allocate_walk_fifo:
  assumes pos: "list_all (\<lambda>r. 0 < quantity r) rows"
    and ij: "i < j" and j: "j < length (allocate_walk q rows)"
  shows "allocate_walk q rows ! i = (lot (rows ! i), location (rows ! i), quantity (rows ! i))"
proof -
  have i: "i < length (allocate_walk q rows)" using ij j by simp
  have il: "i < length rows" using i allocate_walk_length [of q rows] by simp
  have "take (Suc i) rows = take i rows @ [rows ! i]"
    using il by (simp add: take_Suc_conv_app_nth)
  then have s: "total_available (take (Suc i) rows) = total_available (take i rows) + quantity (rows ! i)"
    by simp
  have "total_available (take (Suc i) rows) \<le> total_available (take j rows)"
    using ij by (intro total_available_take_mono [OF pos]) simp
  moreover have "0 < q - total_available (take j rows)"
    using allocate_walk_nth [OF pos j] by simp
  ultimately have "quantity (rows ! i) < q - total_available (take i rows)"
    using s by simp
  then show ?thesis
    using allocate_walk_nth [OF pos i] by simp
qed

lemma sorted_dates_index:
  assumes "sorted (map inbound_date rows)" and "i < length rows" and "j < length rows"
    and "inbound_date (rows ! i) < inbound_date (rows ! j)"
  shows "i < j"
proof (rule ccontr)
  assume "\<not> i < j"
  then have "j \<le> i" by simp
  then have "map inbound_date rows ! j \<le> map inbound_date rows ! i"
    using assms(1,2) by (intro sorted_nth_mono) simp_all
  then show False using assms(2,3,4) by simp
qed

lemma available_stock_sorted: "sorted (map inbound_date (available_stock ledger s))"
  by (simp add: available_stock_def)

section \<open>Totals of a SKU under the ledger statements\<close>

lemma update_quantity_no_match:
  "\<forall>x \<in> set ledger. \<not> key_matches s l c x \<Longrightarrow> update_quantity ledger v now uid stamp s l c = ledger"
  by (induction ledger) (simp_all add: update_quantity_def)

lemma sku_total_Cons:
  "sku_total (a # ledger) s = (if sku a = s then quantity a else 0) + sku_total ledger s"
  by (simp add: sku_total_def)

lemma update_quantity_Cons:
  "update_quantity (a # ledger) v now uid stamp s l c =
     (if key_matches s l c a
      then a\<lparr>quantity := v, last_updated_date := Some now, last_updated_by := Some uid, id_stamp := stamp\<rparr>
      else a) # update_quantity ledger v now uid stamp s l c"
  by (simp add: update_quantity_def)

lemma sku_total_update:
  assumes "distinct (map inventory_key ledger)" and "r \<in> set ledger" and "sku r = s"
  shows "sku_total (update_quantity ledger v now uid stamp s (lot r) (location r)) s
           = sku_total ledger s - quantity r + v"
  using assms(1,2)
proof (induction ledger)
  case Nil
  then show ?case by simp
next
  case (Cons a ledger)
  have ka: "inventory_key a \<notin> inventory_key ` set ledger" and dl: "distinct (map inventory_key ledger)"
    using Cons.prems(1) by simp_all
  show ?case
  proof (cases "a = r")
    case True
    have "\<forall>x \<in> set ledger. \<not> key_matches s (lot r) (location r) x"
      using ka True assms(3) by (auto simp: key_matches_key inventory_key_def image_iff)
    then have "update_quantity ledger v now uid stamp s (lot r) (location r) = ledger"
      by (rule update_quantity_no_match)
    then show ?thesis
      using True assms(3) by (simp add: update_quantity_Cons sku_total_Cons key_matches_def)
  next
    case False
    then have rl: "r \<in> set ledger" using Cons.prems(2) by simp
    then have "inventory_key a \<noteq> inventory_key r" using ka by (auto simp: image_iff)
    then have "\<not> key_matches s (lot r) (location r) a"
      using assms(3) by (auto simp: key_matches_key inventory_key_def)
    then show ?thesis
      using Cons.IH [OF dl rl] by (simp add: update_quantity_Cons sku_total_Cons)
  qed
qed

lemma update_quantity_other_rows:
  assumes "x \<in> set ledger" and "\<not> key_matches s l c x"
  shows "x \<in> set (update_quantity ledger v now uid stamp s l c)"
  using assms by (force simp: update_quantity_def image_iff)

lemma deduct_loop_total:
  assumes "distinct (map inventory_key ledger)" and "distinct (map inventory_key rows)"
    and "\<forall>r \<in> set rows. r \<in> set ledger \<and> sku r = s"
  shows "sku_total (fst (deduct_loop now uid stamp s rows remaining ledger ded)) s
           = sku_total ledger s - deducted (allocate_walk remaining rows)
       \<and> map inventory_key (fst (deduct_loop now uid stamp s rows remaining ledger ded))
           = map inventory_key ledger"
  using assms
proof (induction rows arbitrary: remaining ledger ded)
  case Nil
  then show ?case by (simp add: deducted_def)
next
  case (Cons r rows)
  show ?case
  proof (cases "remaining \<le> 0")
    case True
    then show ?thesis by (simp add: deducted_def)
  next
    case False
    let ?take = "min remaining (quantity r)"
    let ?ledger' = "update_quantity ledger (quantity r - ?take) now uid stamp s (lot r) (location r)"
    have rin: "r \<in> set ledger" and rs: "sku r = s" using Cons.prems(3) by simp_all
    have d': "distinct (map inventory_key ?ledger')"
      using Cons.prems(1) by (simp add: update_quantity_keys)
    have dr: "distinct (map inventory_key rows)" and kr: "inventory_key r \<notin> inventory_key ` set rows"
      using Cons.prems(2) by simp_all
    have rows': "\<forall>x \<in> set rows. x \<in> set ?ledger' \<and> sku x = s"
    proof
      fix x assume x: "x \<in> set rows"
      then have "inventory_key x \<noteq> inventory_key r" using kr by (auto simp: image_iff)
      then have nm: "\<not> key_matches s (lot r) (location r) x"
        using rs by (auto simp: key_matches_key inventory_key_def)
      have "x \<in> set ledger" and "sku x = s" using Cons.prems(3) x by simp_all
      then show "x \<in> set ?ledger' \<and> sku x = s"
        using update_quantity_other_rows [OF _ nm] by simp
    qed
    note ih = Cons.IH [OF d' dr rows', of "remaining - ?take" "ded @ [(lot r, location r, ?take)]"]
    have tot: "sku_total ?ledger' s = sku_total ledger s - quantity r + (quantity r - ?take)"
      by (rule sku_total_update [OF Cons.prems(1) rin rs])
    have walk: "deducted (allocate_walk remaining (r # rows))
                  = ?take + deducted (allocate_walk (remaining - ?take) rows)"
      using False by (simp add: deducted_def)
    have step: "deduct_loop now uid stamp s (r # rows) remaining ledger ded
                  = deduct_loop now uid stamp s rows (remaining - ?take) ?ledger'
                      (ded @ [(lot r, location r, ?take)])"
      using False by (simp add: Let_def)
    show ?thesis
      unfolding step walk using ih tot by (simp add: update_quantity_keys)
  qed
qed

lemma add_quantity_Cons:
  "add_quantity (a # ledger) v now uid stamp s l c =
     (if sku a = s \<and> Some (lot a) = l \<and> Some (location a) = c
      then a\<lparr>quantity := quantity a + v, last_updated_date := Some now, last_updated_by := Some uid, id_stamp := stamp\<rparr>
      else a) # add_quantity ledger v now uid stamp s l c"
  by (simp add: add_quantity_def)

lemma add_quantity_Nil [simp]: "add_quantity [] v now uid stamp s l c = []"
  by (simp add: add_quantity_def)

lemma add_quantity_no_match:
  "\<forall>x \<in> set ledger. inventory_key x \<noteq> (s, l, c) \<Longrightarrow>
   add_quantity ledger v now uid stamp s (Some l) (Some c) = ledger"
  by (induction ledger) (auto simp: add_quantity_Cons inventory_key_def)

lemma sku_total_add:
  assumes "distinct (map inventory_key ledger)" and "(s, l, c) \<in> inventory_key ` set ledger"
  shows "sku_total (add_quantity ledger v now uid stamp s (Some l) (Some c)) s = sku_total ledger s + v"
  using assms
proof (induction ledger)
  case Nil
  then show ?case by simp
next
  case (Cons a ledger)
  have ka: "inventory_key a \<notin> inventory_key ` set ledger" and dl: "distinct (map inventory_key ledger)"
    using Cons.prems(1) by simp_all
  show ?case
  proof (cases "inventory_key a = (s, l, c)")
    case True
    then have "\<forall>x \<in> set ledger. inventory_key x \<noteq> (s, l, c)" using ka by (auto simp: image_iff)
    then have "add_quantity ledger v now uid stamp s (Some l) (Some c) = ledger"
      by (rule add_quantity_no_match)
    then show ?thesis
      using True by (simp add: add_quantity_Cons sku_total_Cons inventory_key_def)
  next
    case False
    then have "(s, l, c) \<in> inventory_key ` set ledger" using Cons.prems(2) by auto
    from Cons.IH [OF dl this] False show ?thesis
      by (auto simp: add_quantity_Cons sku_total_Cons inventory_key_def)
  qed
qed


lemma available_stock_rows:
  "r \<in> set (available_stock ledger s) \<Longrightarrow> r \<in> set ledger \<and> sku r = s"
  by (simp add: available_stock_def)

lemma available_stock_distinct_keys:
  "distinct (map inventory_key ledger) \<Longrightarrow> distinct (map inventory_key (available_stock ledger s))"
  by (auto simp: available_stock_def distinct_map intro: inj_on_subset)

lemma find_appended:
  "\<forall>x \<in> set xs. \<not> P x \<Longrightarrow> P y \<Longrightarrow> find P (xs @ [y]) = Some y"
  by (induction xs) simp_all

lemma select_quantity_add:
  "select_quantity ledger s l c = Some q \<Longrightarrow>
   select_quantity (add_quantity ledger v now uid stamp s (Some l) (Some c)) s l c = Some (q + v)"
  by (induction ledger) (auto simp: select_quantity_def add_quantity_Cons key_matches_def)

lemma add_quantity_other_keys:
  "filter (\<lambda>x. inventory_key x \<noteq> (s, l, c)) (add_quantity ledger v now uid stamp s (Some l) (Some c))
     = filter (\<lambda>x. inventory_key x \<noteq> (s, l, c)) ledger"
  by (induction ledger) (auto simp: add_quantity_Cons inventory_key_def)

lemma select_quantity_key:
  "select_quantity ledger s l c = Some q \<Longrightarrow> (s, l, c) \<in> inventory_key ` set ledger"
  by (induction ledger) (auto simp: select_quantity_def key_matches_key split: if_splits)

lemma reserved_db_eq:
  "reserved_db =
     \<lparr>inventory =
        [lot_B\<lparr>quantity := 7, last_updated_date := Some 7, last_updated_by := Some 1,
               id_stamp := ''RESV-1''\<rparr>,
         lot_A\<lparr>quantity := 0, last_updated_date := Some 7, last_updated_by := Some 1,
               id_stamp := ''RESV-1''\<rparr>],
      reservations =
        [\<lparr>reserve_id = ''RES-1'', rsku = ''X'', rquantity = 8, reserved_by = 1,
          reservation_date = 7, status = PENDING, reserved_lot = Some ''A'',
          reserved_location = Some ''L1'', rid_stamp = ''RESV-1'', pickup_date = None,
          picked_by = None, return_date = None, returned_by = None, return_reason = None,
          cancel_date = None, cancelled_by = None, cancel_reason = None\<rparr>]\<rparr>"
  by (simp add: process_reserve_item_def sample_defs available_stock_def total_available_def
        update_quantity_def key_matches_def insert_reservation_def Let_def)

lemma picked_db_status: "map status (reservations picked_db) = [PICKED]"
  unfolding picked_db_def reserved_db_eq by (simp add: process_reserve_pick_def)


section \<open>The ledger after the allocation walk\<close>

text \<open>The walk writes the ledger with one update statement for each deduction. The
  lemmas below read the ledger it leaves behind: the quantity of each row it walked, the
  rows it did not walk, and the totals of every SKU.\<close>

lemma update_quantity_Nil [simp]: "update_quantity [] v now uid stamp s l c = []"
  by (simp add: update_quantity_def)

lemma select_quantity_Cons:
  "select_quantity (a # ledger) s l c =
     (if key_matches s l c a then Some (quantity a) else select_quantity ledger s l c)"
  by (simp add: select_quantity_def)

lemma select_quantity_member:
  assumes "distinct (map inventory_key ledger)" and "x \<in> set ledger"
  shows "select_quantity ledger (sku x) (lot x) (location x) = Some (quantity x)"
  using assms
proof (induction ledger)
  case Nil
  then show ?case by simp
next
  case (Cons a ledger)
  have ka: "inventory_key a \<notin> inventory_key ` set ledger" and dl: "distinct (map inventory_key ledger)"
    using Cons.prems(1) by simp_all
  show ?case
  proof (cases "key_matches (sku x) (lot x) (location x) a")
    case True
    then have k: "inventory_key a = inventory_key x"
      by (simp add: key_matches_key inventory_key_def)
    have "x = a"
    proof (rule ccontr)
      assume "x \<noteq> a"
      then have "x \<in> set ledger" using Cons.prems(2) by simp
      then show False using ka k by (auto simp: image_iff)
    qed
    then show ?thesis using True by (simp add: select_quantity_Cons)
  next
    case False
    then have "x \<noteq> a" by (auto simp: key_matches_def)
    then have "x \<in> set ledger" using Cons.prems(2) by simp
    from Cons.IH [OF dl this] False show ?thesis by (simp add: select_quantity_Cons)
  qed
qed

lemma select_quantity_update_other:
  "(s', l', c') \<noteq> (s, l, c) \<Longrightarrow>
   select_quantity (update_quantity ledger v now uid stamp s l c) s' l' c' = select_quantity ledger s' l' c'"
  by (induction ledger) (auto simp: update_quantity_Cons select_quantity_Cons key_matches_def)

lemma deduct_loop_frame:
  "(s', l, c) \<notin> (\<lambda>r. (s, lot r, location r)) ` set rows \<Longrightarrow>
   select_quantity (fst (deduct_loop now uid stamp s rows remaining ledger ded)) s' l c
     = select_quantity ledger s' l c"
proof (induction rows arbitrary: remaining ledger ded)
  case Nil
  then show ?case by simp
next
  case (Cons r rows)
  have other: "(s', l, c) \<noteq> (s, lot r, location r)"
    and rest: "(s', l, c) \<notin> (\<lambda>r. (s, lot r, location r)) ` set rows"
    using Cons.prems by auto
  show ?case
  proof (cases "remaining \<le> 0")
    case True
    then show ?thesis by simp
  next
    case False
    then show ?thesis
      using Cons.IH [OF rest] select_quantity_update_other [OF other]
      by (simp add: Let_def)
  qed
qed

lemma deduct_loop_row:
  assumes "distinct (map inventory_key ledger)" and "distinct (map inventory_key rows)"
    and "\<forall>r \<in> set rows. r \<in> set ledger \<and> sku r = s" and "k < length rows"
  shows "select_quantity (fst (deduct_loop now uid stamp s rows remaining ledger ded))
           s (lot (rows ! k)) (location (rows ! k))
         = Some (if k < length (allocate_walk remaining rows)
                 then quantity (rows ! k) - snd (snd (allocate_walk remaining rows ! k))
                 else quantity (rows ! k))"
  using assms
proof (induction rows arbitrary: remaining ledger ded k)
  case Nil
  then show ?case by simp
next
  case (Cons r rows)
  have rin: "r \<in> set ledger" and rs: "sku r = s" using Cons.prems(3) by simp_all
  have selr: "select_quantity ledger s (lot r) (location r) = Some (quantity r)"
    using select_quantity_member [OF Cons.prems(1) rin] rs by simp
  show ?case
  proof (cases "remaining \<le> 0")
    case True
    let ?x = "(r # rows) ! k"
    have "?x \<in> set (r # rows)" using Cons.prems(4) by (intro nth_mem)
    then have xin: "?x \<in> set ledger" and xs: "sku ?x = s" using Cons.prems(3) by blast+
    have "select_quantity ledger s (lot ?x) (location ?x) = Some (quantity ?x)"
      using select_quantity_member [OF Cons.prems(1) xin] xs by simp
    then show ?thesis using True by simp
  next
    case False
    let ?take = "min remaining (quantity r)"
    let ?ledger' = "update_quantity ledger (quantity r - ?take) now uid stamp s (lot r) (location r)"
    have step: "deduct_loop now uid stamp s (r # rows) remaining ledger ded
                  = deduct_loop now uid stamp s rows (remaining - ?take) ?ledger'
                      (ded @ [(lot r, location r, ?take)])"
      using False by (simp add: Let_def)
    have walk: "allocate_walk remaining (r # rows)
                  = (lot r, location r, ?take) # allocate_walk (remaining - ?take) rows"
      using False by simp
    have d': "distinct (map inventory_key ?ledger')"
      using Cons.prems(1) by (simp add: update_quantity_keys)
    have dr: "distinct (map inventory_key rows)" and kr: "inventory_key r \<notin> inventory_key ` set rows"
      using Cons.prems(2) by simp_all
    have rows': "\<forall>x \<in> set rows. x \<in> set ?ledger' \<and> sku x = s"
    proof
      fix x assume x: "x \<in> set rows"
      then have "inventory_key x \<noteq> inventory_key r" using kr by (auto simp: image_iff)
      then have nm: "\<not> key_matches s (lot r) (location r) x"
        using rs by (auto simp: key_matches_key inventory_key_def)
      have "x \<in> set ledger" and "sku x = s" using Cons.prems(3) x by simp_all
      then show "x \<in> set ?ledger' \<and> sku x = s"
        using update_quantity_other_rows [OF _ nm] by simp
    qed
    show ?thesis
    proof (cases k)
      case 0
      have "(s, lot r, location r) \<notin> (\<lambda>x. (s, lot x, location x)) ` set rows"
      proof
        assume "(s, lot r, location r) \<in> (\<lambda>x. (s, lot x, location x)) ` set rows"
        then obtain x where x: "x \<in> set rows" "lot x = lot r" "location x = location r" by auto
        then have "sku x = s" using Cons.prems(3) by simp
        then have "inventory_key x = inventory_key r" using x rs by (simp add: inventory_key_def)
        then show False using kr x(1) by (auto simp: image_iff)
      qed
      then have "select_quantity (fst (deduct_loop now uid stamp s rows (remaining - ?take) ?ledger'
                      (ded @ [(lot r, location r, ?take)]))) s (lot r) (location r)
                   = select_quantity ?ledger' s (lot r) (location r)"
        by (rule deduct_loop_frame)
      also have "\<dots> = Some (quantity r - ?take)"
        by (rule select_quantity_update [OF selr])
      finally show ?thesis
        unfolding step walk using 0 by simp
    next
      case (Suc k')
      then have k': "k' < length rows" using Cons.prems(4) by simp
      note ih = Cons.IH [OF d' dr rows' k', of "remaining - ?take" "ded @ [(lot r, location r, ?take)]"]
      show ?thesis
        unfolding step walk using ih Suc by simp
    qed
  qed
qed

lemma sku_total_update_other_sku:
  "s' \<noteq> s \<Longrightarrow> sku_total (update_quantity ledger v now uid stamp s l c) s' = sku_total ledger s'"
  by (induction ledger) (auto simp: update_quantity_Cons sku_total_Cons key_matches_def)

lemma deduct_loop_other_sku:
  "s' \<noteq> s \<Longrightarrow>
   sku_total (fst (deduct_loop now uid stamp s rows remaining ledger ded)) s' = sku_total ledger s'"
proof (induction rows arbitrary: remaining ledger ded)
  case Nil
  then show ?case by simp
next
  case (Cons r rows)
  show ?case
  proof (cases "remaining \<le> 0")
    case True
    then show ?thesis by simp
  next
    case False
    then show ?thesis
      using Cons.IH [OF Cons.prems] sku_total_update_other_sku [OF Cons.prems]
      by (simp add: Let_def)
  qed
qed

lemma outbound_ledger_eq:
  "0 < qty \<Longrightarrow>
   fst (outbound_item now uid stamp s (Some qty) ledger) =
     (if total_available (available_stock ledger s) < qty then ledger
      else fst (deduct_loop now uid stamp s (available_stock ledger s) qty ledger []))"
  by (auto simp: outbound_item_def Let_def split: prod.splits)

lemma reserve_ledger_eq:
  "0 < qty \<Longrightarrow>
   inventory (fst (process_reserve_item now uid stamp rid s (Some qty) d))
     = fst (deduct_loop now uid stamp s (available_stock (inventory d) s) qty (inventory d) [])"
  by (auto simp: process_reserve_item_def Let_def split: prod.splits)


lemma available_stock_in_ledger:
  "\<forall>r \<in> set (available_stock ledger s). r \<in> set ledger \<and> sku r = s"
  using available_stock_rows by blast

lemma loop_total_applied:
  assumes "distinct (map inventory_key ledger)"
  shows "sku_total (fst (deduct_loop now uid stamp s (available_stock ledger s) qty ledger [])) s
           = sku_total ledger s - deducted (allocate_walk qty (available_stock ledger s))"
  using deduct_loop_total [OF assms available_stock_distinct_keys [OF assms] available_stock_in_ledger]
  by (rule conjunct1)

lemma loop_rows_applied:
  assumes "distinct (map inventory_key ledger)" and "k < length (available_stock ledger s)"
  shows "select_quantity (fst (deduct_loop now uid stamp s (available_stock ledger s) qty ledger []))
           s (lot (available_stock ledger s ! k)) (location (available_stock ledger s ! k))
         = Some (if k < length (allocate_walk qty (available_stock ledger s))
                 then quantity (available_stock ledger s ! k)
                      - snd (snd (allocate_walk qty (available_stock ledger s) ! k))
                 else quantity (available_stock ledger s ! k))"
  by (rule deduct_loop_row [OF assms(1) available_stock_distinct_keys [OF assms(1)]
            available_stock_in_ledger assms(2)])

lemma loop_deductions_applied:
  assumes "distinct (map inventory_key ledger)"
    and "k < length (allocate_walk qty (available_stock ledger s))"
  shows "allocate_walk qty (available_stock ledger s) ! k
           = (lot (available_stock ledger s ! k), location (available_stock ledger s ! k),
              snd (snd (allocate_walk qty (available_stock ledger s) ! k)))
       \<and> select_quantity (fst (deduct_loop now uid stamp s (available_stock ledger s) qty ledger []))
           s (lot (available_stock ledger s ! k)) (location (available_stock ledger s ! k))
         = Some (quantity (available_stock ledger s ! k)
                 - snd (snd (allocate_walk qty (available_stock ledger s) ! k)))"
proof -
  have kl: "k < length (available_stock ledger s)"
    using assms(2) allocate_walk_length [of qty "available_stock ledger s"] by simp
  have "allocate_walk qty (available_stock ledger s) ! k
           = (lot (available_stock ledger s ! k), location (available_stock ledger s ! k),
              min (qty - total_available (take k (available_stock ledger s)))
                  (quantity (available_stock ledger s ! k)))"
    using allocate_walk_nth [OF available_stock_positive assms(2)] by (rule conjunct1)
  then have a: "allocate_walk qty (available_stock ledger s) ! k
           = (lot (available_stock ledger s ! k), location (available_stock ledger s ! k),
              snd (snd (allocate_walk qty (available_stock ledger s) ! k)))"
    by simp
  have b: "select_quantity (fst (deduct_loop now uid stamp s (available_stock ledger s) qty ledger []))
           s (lot (available_stock ledger s ! k)) (location (available_stock ledger s ! k))
         = Some (quantity (available_stock ledger s ! k)
                 - snd (snd (allocate_walk qty (available_stock ledger s) ! k)))"
    using loop_rows_applied [OF assms(1) kl] assms(2) by simp
  from a b show ?thesis by (rule conjI)
qed

section \<open>The deductions sum to the request\<close>

text \<open>
  C3. For an outbound item and for a reservation of a positive quantity, the deductions
  never sum to more than the requested quantity, and they sum to exactly the requested
  quantity whenever the available total covers the request. These deductions are the
  ones applied to the ledger: with unique keys (SKU, lot, location), the total of the
  SKU in the ledger returned by the outbound item, and in the one returned by the
  reservation, is the total before less the sum of the deductions; each deduction names
  the lot and location of the available row at its position, and the quantity of that
  row in the returned ledger is its quantity before less the deduction. The totals of
  all other SKUs are unchanged.
\<close>

theorem allocation_sum:
  assumes "0 < qty"
  shows "deducted (outbound_deductions now uid stamp s qty ledger) \<le> qty
       \<and> deducted (reserve_deductions now uid stamp rid s qty d) \<le> qty
       \<and> (qty \<le> total_available (available_stock ledger s) \<longrightarrow>
            deducted (outbound_deductions now uid stamp s qty ledger) = qty)
       \<and> (qty \<le> total_available (available_stock (inventory d) s) \<longrightarrow>
            deducted (reserve_deductions now uid stamp rid s qty d) = qty)
       \<and> (distinct (map inventory_key ledger) \<longrightarrow>
            sku_total (fst (outbound_item now uid stamp s (Some qty) ledger)) s
              = sku_total ledger s - deducted (outbound_deductions now uid stamp s qty ledger)
            \<and> (\<forall>k. k < length (outbound_deductions now uid stamp s qty ledger) \<longrightarrow>
                  outbound_deductions now uid stamp s qty ledger ! k
                    = (lot (available_stock ledger s ! k), location (available_stock ledger s ! k),
                       snd (snd (outbound_deductions now uid stamp s qty ledger ! k)))
                  \<and> select_quantity (fst (outbound_item now uid stamp s (Some qty) ledger))
                        s (lot (available_stock ledger s ! k)) (location (available_stock ledger s ! k))
                      = Some (quantity (available_stock ledger s ! k)
                              - snd (snd (outbound_deductions now uid stamp s qty ledger ! k)))))
       \<and> (distinct (map inventory_key (inventory d)) \<longrightarrow>
            sku_total (inventory (fst (process_reserve_item now uid stamp rid s (Some qty) d))) s
              = sku_total (inventory d) s - deducted (reserve_deductions now uid stamp rid s qty d)
            \<and> (\<forall>k. k < length (reserve_deductions now uid stamp rid s qty d) \<longrightarrow>
                  reserve_deductions now uid stamp rid s qty d ! k
                    = (lot (available_stock (inventory d) s ! k),
                       location (available_stock (inventory d) s ! k),
                       snd (snd (reserve_deductions now uid stamp rid s qty d ! k)))
                  \<and> select_quantity (inventory (fst (process_reserve_item now uid stamp rid s (Some qty) d)))
                        s (lot (available_stock (inventory d) s ! k))
                        (location (available_stock (inventory d) s ! k))
                      = Some (quantity (available_stock (inventory d) s ! k)
                              - snd (snd (reserve_deductions now uid stamp rid s qty d ! k)))))
       \<and> (\<forall>s'. s' \<noteq> s \<longrightarrow>
            sku_total (fst (outbound_item now uid stamp s (Some qty) ledger)) s' = sku_total ledger s'
            \<and> sku_total (inventory (fst (process_reserve_item now uid stamp rid s (Some qty) d))) s'
                = sku_total (inventory d) s')"
proof -
  have nonneg: "0 \<le> qty" using assms by simp
  have walk: "deducted (allocate_walk qty (available_stock l s)) =
                min qty (total_available (available_stock l s))" for l
    by (rule allocate_walk_sum [OF available_stock_positive nonneg])
  have empty: "deducted [] = 0" by (simp add: deducted_def)
  note oeq = outbound_deductions_eq [OF assms, of now uid stamp s ledger]
  note req = reserve_deductions_eq [OF assms, of now uid stamp rid s d]
  note ol = outbound_ledger_eq [OF assms, of now uid stamp s ledger]
  note rl = reserve_ledger_eq [OF assms, of now uid stamp rid s d]
  have c1: "deducted (outbound_deductions now uid stamp s qty ledger) \<le> qty"
    using assms by (simp add: oeq walk empty)
  have c2: "deducted (reserve_deductions now uid stamp rid s qty d) \<le> qty"
    by (simp add: req walk)
  have c3: "qty \<le> total_available (available_stock ledger s) \<longrightarrow>
            deducted (outbound_deductions now uid stamp s qty ledger) = qty"
    by (simp add: oeq walk)
  have c4: "qty \<le> total_available (available_stock (inventory d) s) \<longrightarrow>
            deducted (reserve_deductions now uid stamp rid s qty d) = qty"
    by (simp add: req walk)
  have c5: "distinct (map inventory_key ledger) \<longrightarrow>
            sku_total (fst (outbound_item now uid stamp s (Some qty) ledger)) s
              = sku_total ledger s - deducted (outbound_deductions now uid stamp s qty ledger)
            \<and> (\<forall>k. k < length (outbound_deductions now uid stamp s qty ledger) \<longrightarrow>
                  outbound_deductions now uid stamp s qty ledger ! k
                    = (lot (available_stock ledger s ! k), location (available_stock ledger s ! k),
                       snd (snd (outbound_deductions now uid stamp s qty ledger ! k)))
                  \<and> select_quantity (fst (outbound_item now uid stamp s (Some qty) ledger))
                        s (lot (available_stock ledger s ! k)) (location (available_stock ledger s ! k))
                      = Some (quantity (available_stock ledger s ! k)
                              - snd (snd (outbound_deductions now uid stamp s qty ledger ! k))))"
  proof
    assume dist: "distinct (map inventory_key ledger)"
    show "sku_total (fst (outbound_item now uid stamp s (Some qty) ledger)) s
              = sku_total ledger s - deducted (outbound_deductions now uid stamp s qty ledger)
            \<and> (\<forall>k. k < length (outbound_deductions now uid stamp s qty ledger) \<longrightarrow>
                  outbound_deductions now uid stamp s qty ledger ! k
                    = (lot (available_stock ledger s ! k), location (available_stock ledger s ! k),
                       snd (snd (outbound_deductions now uid stamp s qty ledger ! k)))
                  \<and> select_quantity (fst (outbound_item now uid stamp s (Some qty) ledger))
                        s (lot (available_stock ledger s ! k)) (location (available_stock ledger s ! k))
                      = Some (quantity (available_stock ledger s ! k)
                              - snd (snd (outbound_deductions now uid stamp s qty ledger ! k))))"
    proof (cases "total_available (available_stock ledger s) < qty")
      case True
      then show ?thesis unfolding oeq ol by (simp add: empty)
    next
      case False
      then have o: "outbound_deductions now uid stamp s qty ledger
                      = allocate_walk qty (available_stock ledger s)"
        and l: "fst (outbound_item now uid stamp s (Some qty) ledger)
                  = fst (deduct_loop now uid stamp s (available_stock ledger s) qty ledger [])"
        unfolding oeq ol by simp_all
      show ?thesis
        unfolding o l
        using loop_total_applied [OF dist]
              loop_deductions_applied [OF dist]
        by blast
    qed
  qed
  have c6: "distinct (map inventory_key (inventory d)) \<longrightarrow>
            sku_total (inventory (fst (process_reserve_item now uid stamp rid s (Some qty) d))) s
              = sku_total (inventory d) s - deducted (reserve_deductions now uid stamp rid s qty d)
            \<and> (\<forall>k. k < length (reserve_deductions now uid stamp rid s qty d) \<longrightarrow>
                  reserve_deductions now uid stamp rid s qty d ! k
                    = (lot (available_stock (inventory d) s ! k),
                       location (available_stock (inventory d) s ! k),
                       snd (snd (reserve_deductions now uid stamp rid s qty d ! k)))
                  \<and> select_quantity (inventory (fst (process_reserve_item now uid stamp rid s (Some qty) d)))
                        s (lot (available_stock (inventory d) s ! k))
                        (location (available_stock (inventory d) s ! k))
                      = Some (quantity (available_stock (inventory d) s ! k)
                              - snd (snd (reserve_deductions now uid stamp rid s qty d ! k))))"
  proof
    assume dist: "distinct (map inventory_key (inventory d))"
    show "sku_total (inventory (fst (process_reserve_item now uid stamp rid s (Some qty) d))) s
              = sku_total (inventory d) s - deducted (reserve_deductions now uid stamp rid s qty d)
            \<and> (\<forall>k. k < length (reserve_deductions now uid stamp rid s qty d) \<longrightarrow>
                  reserve_deductions now uid stamp rid s qty d ! k
                    = (lot (available_stock (inventory d) s ! k),
                       location (available_stock (inventory d) s ! k),
                       snd (snd (reserve_deductions now uid stamp rid s qty d ! k)))
                  \<and> select_quantity (inventory (fst (process_reserve_item now uid stamp rid s (Some qty) d)))
                        s (lot (available_stock (inventory d) s ! k))
                        (location (available_stock (inventory d) s ! k))
                      = Some (quantity (available_stock (inventory d) s ! k)
                              - snd (snd (reserve_deductions now uid stamp rid s qty d ! k))))"
      unfolding req rl
      using loop_total_applied [OF dist]
            loop_deductions_applied [OF dist]
      by blast
  qed
  have c7: "\<forall>s'. s' \<noteq> s \<longrightarrow>
            sku_total (fst (outbound_item now uid stamp s (Some qty) ledger)) s' = sku_total ledger s'
            \<and> sku_total (inventory (fst (process_reserve_item now uid stamp rid s (Some qty) d))) s'
                = sku_total (inventory d) s'"
    unfolding ol rl by (simp add: deduct_loop_other_sku)
  from c1 c2 c3 c4 c5 c6 c7 show ?thesis by (intro conjI)
qed

theorem allocation_sum_witness:
  "deducted (outbound_deductions 7 1 ''T-1'' ''X'' 8 (inventory stock_db)) = 8
   \<and> deducted (reserve_deductions 7 1 ''T-1'' ''RES-1'' ''X'' 8 stock_db) = 8
   \<and> deducted (reserve_deductions 7 1 ''T-1'' ''RES-1'' ''X'' 100 stock_db) \<le> 100
   \<and> sku_total (inventory stock_db) ''X'' = 15
   \<and> sku_total (fst (outbound_item 7 1 ''T-1'' ''X'' (Some 8) (inventory stock_db))) ''X'' = 7
   \<and> sku_total (inventory (fst (process_reserve_item 7 1 ''T-1'' ''RES-1'' ''X'' (Some 8) stock_db))) ''X'' = 7"
proof -
  have p8: "(0::int) < 8" and p100: "(0::int) < 100" by simp_all
  have cover: "(8::int) \<le> total_available (available_stock (inventory stock_db) ''X'')"
    by (simp add: sample_defs available_stock_def total_available_def)
  have dist: "distinct (map inventory_key (inventory stock_db))"
    by (simp add: sample_defs inventory_key_def)
  have tot: "sku_total (inventory stock_db) ''X'' = 15"
    by (simp add: sample_defs sku_total_def)
  note t = allocation_sum [OF p8, where now = 7 and uid = 1 and stamp = "''T-1''" and s = "''X''"
             and ledger = "inventory stock_db" and rid = "''RES-1''" and d = stock_db]
  note u = allocation_sum [OF p100, where now = 7 and uid = 1 and stamp = "''T-1''" and s = "''X''"
             and ledger = "inventory stock_db" and rid = "''RES-1''" and d = stock_db]
  note out = t [THEN conjunct2, THEN conjunct2, THEN conjunct1, THEN mp, OF cover]
  note res = t [THEN conjunct2, THEN conjunct2, THEN conjunct2, THEN conjunct1, THEN mp, OF cover]
  note big = u [THEN conjunct2, THEN conjunct1]
  have lo: "sku_total (fst (outbound_item 7 1 ''T-1'' ''X'' (Some 8) (inventory stock_db))) ''X'' = 7"
    using t [THEN conjunct2, THEN conjunct2, THEN conjunct2, THEN conjunct2, THEN conjunct1,
             THEN mp, OF dist, THEN conjunct1]
    unfolding out tot by simp
  have lr: "sku_total (inventory (fst (process_reserve_item 7 1 ''T-1'' ''RES-1'' ''X'' (Some 8) stock_db))) ''X'' = 7"
    using t [THEN conjunct2, THEN conjunct2, THEN conjunct2, THEN conjunct2, THEN conjunct2,
             THEN conjunct1, THEN mp, OF dist, THEN conjunct1]
    unfolding res tot by simp
  from out res big tot lo lr show ?thesis by (intro conjI)
qed

section \<open>First in, first out\<close>

text \<open>
  C2. For a positive request that the available stock covers, the rows are walked in
  ascending inbound date and the outbound item and the reservation record the same
  deductions, those of the walk of the specification. Whenever a row with a later
  inbound date has a deduction, every row with an earlier inbound date comes before it
  and has been deducted in full. The deduction at each position is the minimum of what
  remained there and the row's quantity, something remained at each position, and the
  deductions sum to the request. The ledger is written accordingly: the reservation and
  the outbound item return the same ledger; a key that is not that of an available row
  of the SKU reads the same quantity as before; and with unique keys (SKU, lot,
  location) the ledger keeps its keys, the total of the SKU falls by the request, every
  available row holds its quantity less its deduction (its old quantity when the walk
  stopped before it), and every row with an earlier inbound date than a row that
  received a deduction is left with quantity 0.
\<close>

theorem allocation_fifo:
  assumes "0 < qty" and "qty \<le> total_available (available_stock (inventory d) s)"
  shows "sorted (map inbound_date (available_stock (inventory d) s))
       \<and> outbound_deductions now uid stamp s qty (inventory d)
           = allocate_walk qty (available_stock (inventory d) s)
       \<and> reserve_deductions now uid stamp rid s qty d
           = outbound_deductions now uid stamp s qty (inventory d)
       \<and> length (outbound_deductions now uid stamp s qty (inventory d))
           \<le> length (available_stock (inventory d) s)
       \<and> (\<forall>i j. i < length (available_stock (inventory d) s)
                \<and> j < length (outbound_deductions now uid stamp s qty (inventory d))
                \<and> inbound_date (available_stock (inventory d) s ! i)
                    < inbound_date (available_stock (inventory d) s ! j)
              \<longrightarrow> i < j
                \<and> outbound_deductions now uid stamp s qty (inventory d) ! i
                    = (lot (available_stock (inventory d) s ! i),
                       location (available_stock (inventory d) s ! i),
                       quantity (available_stock (inventory d) s ! i)))
       \<and> (\<forall>k. k < length (outbound_deductions now uid stamp s qty (inventory d))
              \<longrightarrow> outbound_deductions now uid stamp s qty (inventory d) ! k
                    = (lot (available_stock (inventory d) s ! k),
                       location (available_stock (inventory d) s ! k),
                       min (qty - total_available (take k (available_stock (inventory d) s)))
                           (quantity (available_stock (inventory d) s ! k)))
                \<and> 0 < qty - total_available (take k (available_stock (inventory d) s)))
       \<and> deducted (outbound_deductions now uid stamp s qty (inventory d)) = qty
       \<and> inventory (fst (process_reserve_item now uid stamp rid s (Some qty) d))
           = fst (outbound_item now uid stamp s (Some qty) (inventory d))
       \<and> (\<forall>s' l c. (s', l, c) \<notin> inventory_key ` set (available_stock (inventory d) s)
              \<longrightarrow> select_quantity (fst (outbound_item now uid stamp s (Some qty) (inventory d))) s' l c
                    = select_quantity (inventory d) s' l c)
       \<and> (distinct (map inventory_key (inventory d)) \<longrightarrow>
            map inventory_key (fst (outbound_item now uid stamp s (Some qty) (inventory d)))
              = map inventory_key (inventory d)
            \<and> sku_total (fst (outbound_item now uid stamp s (Some qty) (inventory d))) s
                = sku_total (inventory d) s - qty
            \<and> (\<forall>k. k < length (available_stock (inventory d) s) \<longrightarrow>
                  select_quantity (fst (outbound_item now uid stamp s (Some qty) (inventory d)))
                      s (lot (available_stock (inventory d) s ! k))
                      (location (available_stock (inventory d) s ! k))
                    = Some (if k < length (outbound_deductions now uid stamp s qty (inventory d))
                            then quantity (available_stock (inventory d) s ! k)
                                 - snd (snd (outbound_deductions now uid stamp s qty (inventory d) ! k))
                            else quantity (available_stock (inventory d) s ! k)))
            \<and> (\<forall>i j. i < length (available_stock (inventory d) s)
                     \<and> j < length (outbound_deductions now uid stamp s qty (inventory d))
                     \<and> inbound_date (available_stock (inventory d) s ! i)
                         < inbound_date (available_stock (inventory d) s ! j)
                   \<longrightarrow> select_quantity (fst (outbound_item now uid stamp s (Some qty) (inventory d)))
                          s (lot (available_stock (inventory d) s ! i))
                          (location (available_stock (inventory d) s ! i))
                        = Some 0))"
proof -
  let ?stock = "available_stock (inventory d) s"
  let ?out = "outbound_deductions now uid stamp s qty (inventory d)"
  have pos: "list_all (\<lambda>r. 0 < quantity r) ?stock" by (rule available_stock_positive)
  have out: "?out = allocate_walk qty ?stock"
    using assms by (simp add: outbound_deductions_eq)
  have res: "reserve_deductions now uid stamp rid s qty d = ?out"
    using assms by (simp add: reserve_deductions_eq out)
  have len: "length ?out \<le> length ?stock"
    unfolding out by (rule allocate_walk_length)
  have fifo: "\<forall>i j. i < length ?stock \<and> j < length ?out
                \<and> inbound_date (?stock ! i) < inbound_date (?stock ! j)
              \<longrightarrow> i < j \<and> ?out ! i = (lot (?stock ! i), location (?stock ! i), quantity (?stock ! i))"
  proof (intro allI impI)
    fix i j
    assume a: "i < length ?stock \<and> j < length ?out
                \<and> inbound_date (?stock ! i) < inbound_date (?stock ! j)"
    then have jl: "j < length ?stock" using len by simp
    from a have il: "i < length ?stock"
      and lt: "inbound_date (?stock ! i) < inbound_date (?stock ! j)" by simp_all
    have ij: "i < j"
      by (rule sorted_dates_index [OF available_stock_sorted il jl lt])
    have "j < length (allocate_walk qty ?stock)" using a unfolding out by simp
    from allocate_walk_fifo [OF pos ij this] ij
    show "i < j \<and> ?out ! i = (lot (?stock ! i), location (?stock ! i), quantity (?stock ! i))"
      unfolding out by simp
  qed
  have nth: "\<forall>k. k < length ?out
              \<longrightarrow> ?out ! k = (lot (?stock ! k), location (?stock ! k),
                       min (qty - total_available (take k ?stock)) (quantity (?stock ! k)))
                \<and> 0 < qty - total_available (take k ?stock)"
    unfolding out using allocate_walk_nth [OF pos] by blast
  have sum: "deducted ?out = qty"
    unfolding out using allocate_walk_sum [OF pos, of qty] assms by simp
  let ?L = "fst (outbound_item now uid stamp s (Some qty) (inventory d))"
  let ?loop = "fst (deduct_loop now uid stamp s ?stock qty (inventory d) [])"
  have led: "?L = ?loop"
    using assms by (simp add: outbound_ledger_eq)
  have same: "inventory (fst (process_reserve_item now uid stamp rid s (Some qty) d)) = ?L"
    unfolding led using assms(1) by (rule reserve_ledger_eq)
  have frame: "\<forall>s' l c. (s', l, c) \<notin> inventory_key ` set ?stock
                 \<longrightarrow> select_quantity ?L s' l c = select_quantity (inventory d) s' l c"
  proof (intro allI impI)
    fix s' l c
    assume n: "(s', l, c) \<notin> inventory_key ` set ?stock"
    have "inventory_key ` set ?stock = (\<lambda>r. (s, lot r, location r)) ` set ?stock"
      using available_stock_in_ledger [of "inventory d" s]
      by (intro image_cong) (simp_all add: inventory_key_def)
    with n have "(s', l, c) \<notin> (\<lambda>r. (s, lot r, location r)) ` set ?stock" by simp
    then show "select_quantity ?L s' l c = select_quantity (inventory d) s' l c"
      unfolding led by (rule deduct_loop_frame)
  qed
  have ledger: "distinct (map inventory_key (inventory d)) \<longrightarrow>
            map inventory_key ?L = map inventory_key (inventory d)
            \<and> sku_total ?L s = sku_total (inventory d) s - qty
            \<and> (\<forall>k. k < length ?stock \<longrightarrow>
                  select_quantity ?L s (lot (?stock ! k)) (location (?stock ! k))
                    = Some (if k < length ?out then quantity (?stock ! k) - snd (snd (?out ! k))
                            else quantity (?stock ! k)))
            \<and> (\<forall>i j. i < length ?stock \<and> j < length ?out
                     \<and> inbound_date (?stock ! i) < inbound_date (?stock ! j)
                   \<longrightarrow> select_quantity ?L s (lot (?stock ! i)) (location (?stock ! i)) = Some 0)"
  proof
    assume dist: "distinct (map inventory_key (inventory d))"
    note tot = deduct_loop_total [OF dist available_stock_distinct_keys [OF dist]
                 available_stock_in_ledger, where now = now and uid = uid and stamp = stamp
                 and remaining = qty and ded = "[]"]
    have keys: "map inventory_key ?L = map inventory_key (inventory d)"
      unfolding led using tot by (rule conjunct2)
    have total: "sku_total ?L s = sku_total (inventory d) s - qty"
      unfolding led using tot [THEN conjunct1] sum unfolding out by simp
    have rows: "\<forall>k. k < length ?stock \<longrightarrow>
                  select_quantity ?L s (lot (?stock ! k)) (location (?stock ! k))
                    = Some (if k < length ?out then quantity (?stock ! k) - snd (snd (?out ! k))
                            else quantity (?stock ! k))"
      unfolding led out using loop_rows_applied [OF dist] by blast
    have older: "\<forall>i j. i < length ?stock \<and> j < length ?out
                     \<and> inbound_date (?stock ! i) < inbound_date (?stock ! j)
                   \<longrightarrow> select_quantity ?L s (lot (?stock ! i)) (location (?stock ! i)) = Some 0"
    proof (intro allI impI)
      fix i j
      assume a: "i < length ?stock \<and> j < length ?out
                   \<and> inbound_date (?stock ! i) < inbound_date (?stock ! j)"
      from fifo a have ij: "i < j"
        and whole: "?out ! i = (lot (?stock ! i), location (?stock ! i), quantity (?stock ! i))"
        by blast+
      from a ij have il: "i < length ?out" by simp
      from a have "i < length ?stock" by simp
      with rows have "select_quantity ?L s (lot (?stock ! i)) (location (?stock ! i))
                    = Some (if i < length ?out then quantity (?stock ! i) - snd (snd (?out ! i))
                            else quantity (?stock ! i))" by blast
      then show "select_quantity ?L s (lot (?stock ! i)) (location (?stock ! i)) = Some 0"
        using il whole by simp
    qed
    from keys total rows older
    show "map inventory_key ?L = map inventory_key (inventory d)
            \<and> sku_total ?L s = sku_total (inventory d) s - qty
            \<and> (\<forall>k. k < length ?stock \<longrightarrow>
                  select_quantity ?L s (lot (?stock ! k)) (location (?stock ! k))
                    = Some (if k < length ?out then quantity (?stock ! k) - snd (snd (?out ! k))
                            else quantity (?stock ! k)))
            \<and> (\<forall>i j. i < length ?stock \<and> j < length ?out
                     \<and> inbound_date (?stock ! i) < inbound_date (?stock ! j)
                   \<longrightarrow> select_quantity ?L s (lot (?stock ! i)) (location (?stock ! i)) = Some 0)"
      by (intro conjI)
  qed
  from available_stock_sorted out res len fifo nth sum same frame ledger show ?thesis
    by (intro conjI)
qed

theorem allocation_fifo_witness:
  "outbound_deductions 7 1 ''T-1'' ''X'' 8 (inventory stock_db) = [(''A'', ''L1'', 5), (''B'', ''L2'', 3)]
   \<and> reserve_deductions 7 1 ''T-1'' ''RES-1'' ''X'' 8 stock_db = [(''A'', ''L1'', 5), (''B'', ''L2'', 3)]
   \<and> select_quantity (inventory stock_db) ''X'' ''A'' ''L1'' = Some 5
   \<and> select_quantity (inventory stock_db) ''X'' ''B'' ''L2'' = Some 10
   \<and> select_quantity (fst (outbound_item 7 1 ''T-1'' ''X'' (Some 8) (inventory stock_db))) ''X'' ''A'' ''L1''
       = Some 0
   \<and> select_quantity (fst (outbound_item 7 1 ''T-1'' ''X'' (Some 8) (inventory stock_db))) ''X'' ''B'' ''L2''
       = Some 7
   \<and> inventory (fst (process_reserve_item 7 1 ''T-1'' ''RES-1'' ''X'' (Some 8) stock_db))
       = fst (outbound_item 7 1 ''T-1'' ''X'' (Some 8) (inventory stock_db))"
proof -
  have p8: "(0::int) < 8" by simp
  have stock: "available_stock (inventory stock_db) ''X'' = [lot_A, lot_B]"
    by (simp add: sample_defs available_stock_def)
  have cover: "(8::int) \<le> total_available (available_stock (inventory stock_db) ''X'')"
    unfolding stock by (simp add: lot_A_def lot_B_def)
  have dist: "distinct (map inventory_key (inventory stock_db))"
    by (simp add: sample_defs inventory_key_def)
  note t = allocation_fifo [OF p8 cover, of 7 1 "''T-1''" "''RES-1''"]
  have walk: "allocate_walk 8 [lot_A, lot_B] = [(''A'', ''L1'', 5), (''B'', ''L2'', 3)]"
    by (simp add: lot_A_def lot_B_def)
  have out: "outbound_deductions 7 1 ''T-1'' ''X'' 8 (inventory stock_db) = [(''A'', ''L1'', 5), (''B'', ''L2'', 3)]"
    using t [THEN conjunct2, THEN conjunct1] unfolding stock walk .
  have res: "reserve_deductions 7 1 ''T-1'' ''RES-1'' ''X'' 8 stock_db = [(''A'', ''L1'', 5), (''B'', ''L2'', 3)]"
    using t [THEN conjunct2, THEN conjunct2, THEN conjunct1] unfolding out .
  have before_A: "select_quantity (inventory stock_db) ''X'' ''A'' ''L1'' = Some 5"
    by (simp add: sample_defs select_quantity_def key_matches_def)
  have before_B: "select_quantity (inventory stock_db) ''X'' ''B'' ''L2'' = Some 10"
    by (simp add: sample_defs select_quantity_def key_matches_def)
  note tail = t [THEN conjunct2, THEN conjunct2, THEN conjunct2, THEN conjunct2, THEN conjunct2,
                 THEN conjunct2, THEN conjunct2]
  note same = tail [THEN conjunct1]
  note rows = tail [THEN conjunct2, THEN conjunct2, THEN mp, OF dist,
                    THEN conjunct2, THEN conjunct2, THEN conjunct1]
  have after_A: "select_quantity (fst (outbound_item 7 1 ''T-1'' ''X'' (Some 8) (inventory stock_db)))
                   ''X'' ''A'' ''L1'' = Some 0"
    using rows [THEN spec, of 0] unfolding stock out by (simp add: lot_A_def)
  have after_B: "select_quantity (fst (outbound_item 7 1 ''T-1'' ''X'' (Some 8) (inventory stock_db)))
                   ''X'' ''B'' ''L2'' = Some 7"
    using rows [THEN spec, of 1] unfolding stock out by (simp add: lot_B_def)
  from out res before_A before_B after_A after_B same show ?thesis by (intro conjI)
qed

section \<open>Reserve, then cancel\<close>

text \<open>
  C8. On a ledger with unique keys, a reservation of a positive quantity that the
  available stock covers, made under a reservation id not yet in the table, succeeds and
  lowers the SKU's total by the reserved quantity; cancelling that reservation right
  after succeeds and brings the SKU's total (the sum of the quantities of all its
  records) back to its value before the reservation.
\<close>

theorem reserve_cancel_round_trip:
  assumes dist: "distinct (map inventory_key (inventory d))"
    and pos: "0 < qty" and cover: "qty \<le> total_available (available_stock (inventory d) s)"
    and fresh: "rid \<notin> reserve_id ` set (reservations d)"
  shows "overall_success (snd (process_reserve_item now uid stamp rid s (Some qty) d))
       \<and> sku_total (inventory (fst (process_reserve_item now uid stamp rid s (Some qty) d))) s
           = sku_total (inventory d) s - qty
       \<and> snd (process_reserve_cancel now' uid' stamp' rid reason
                (fst (process_reserve_item now uid stamp rid s (Some qty) d))) = Inr ()
       \<and> sku_total (inventory (fst (process_reserve_cancel now' uid' stamp' rid reason
                (fst (process_reserve_item now uid stamp rid s (Some qty) d))))) s
           = sku_total (inventory d) s"
proof -
  let ?stock = "available_stock (inventory d) s"
  have ne: "?stock \<noteq> []" using pos cover by auto
  then obtain r0 rest where stock: "?stock = r0 # rest" by (cases ?stock) auto
  obtain ledger1 ds rem where loop: "deduct_loop now uid stamp s ?stock qty (inventory d) [] = (ledger1, ds, rem)"
    by (cases "deduct_loop now uid stamp s ?stock qty (inventory d) []") auto
  have ds: "ds = allocate_walk qty ?stock"
    using deduct_loop_result [OF loop] by simp
  have ds0: "ds = (lot r0, location r0, min qty (quantity r0)) # allocate_walk (qty - min qty (quantity r0)) rest"
    unfolding ds stock using pos by simp
  let ?new = "insert_reservation (reservations d) rid s qty uid now (Some (lot r0)) (Some (location r0)) stamp"
  have run: "process_reserve_item now uid stamp rid s (Some qty) d
               = (\<lparr>inventory = ledger1, reservations = ?new\<rparr>,
                  \<lparr>overall_success = True, error_message = None, return_message = Inr ds\<rparr>)"
    using pos cover ne loop by (simp add: process_reserve_item_def Let_def ds0)
  have rows: "\<forall>r \<in> set ?stock. r \<in> set (inventory d) \<and> sku r = s"
    using available_stock_rows by blast
  note lt = deduct_loop_total [OF dist available_stock_distinct_keys [OF dist] rows,
              of now uid stamp qty "[]"]
  have l1: "fst (deduct_loop now uid stamp s ?stock qty (inventory d) []) = ledger1"
    by (simp add: loop)
  have sum: "deducted (allocate_walk qty ?stock) = qty"
    using allocate_walk_sum [OF available_stock_positive, of qty "inventory d" s] pos cover by simp
  have tot1: "sku_total ledger1 s = sku_total (inventory d) s - qty"
    using lt unfolding l1 sum by simp
  have keys1: "map inventory_key ledger1 = map inventory_key (inventory d)"
    using lt unfolding l1 by simp
  have r0: "r0 \<in> set (inventory d)" "sku r0 = s"
    using rows stock by simp_all
  have "inventory_key r0 \<in> set (map inventory_key (inventory d))"
    using r0(1) by simp
  then have key1: "(s, lot r0, location r0) \<in> inventory_key ` set ledger1"
    unfolding keys1 [symmetric] using r0(2) by (simp add: inventory_key_def)
  have dist1: "distinct (map inventory_key ledger1)"
    unfolding keys1 by (rule dist)
  let ?row = "\<lparr>reserve_id = rid, rsku = s, rquantity = qty, reserved_by = uid,
            reservation_date = now, status = PENDING, reserved_lot = Some (lot r0),
            reserved_location = Some (location r0), rid_stamp = stamp, pickup_date = None,
            picked_by = None, return_date = None, returned_by = None,
            return_reason = None, cancel_date = None, cancelled_by = None,
            cancel_reason = None\<rparr>"
  have new: "?new = reservations d @ [?row]"
    by (simp add: insert_reservation_def)
  have none: "\<forall>x \<in> set (reservations d). \<not> (reserve_id x = rid \<and> status x = PENDING)"
    using fresh by auto
  have found: "find (\<lambda>r. reserve_id r = rid \<and> status r = PENDING) ?new = Some ?row"
    unfolding new by (rule find_appended [OF none]) simp
  have cancel: "process_reserve_cancel now' uid' stamp' rid reason \<lparr>inventory = ledger1, reservations = ?new\<rparr>
                  = (\<lparr>inventory = add_quantity ledger1 qty now' uid' stamp' s (Some (lot r0)) (Some (location r0)),
                      reservations =
                        map (\<lambda>r. if reserve_id r = rid
                                 then r\<lparr>status := CANCELLED, cancel_date := Some now',
                                        cancelled_by := Some uid', cancel_reason := Some reason\<rparr>
                                 else r) ?new\<rparr>,
                     Inr ())"
    by (simp add: process_reserve_cancel_def found)
  have tot2: "sku_total (add_quantity ledger1 qty now' uid' stamp' s (Some (lot r0)) (Some (location r0))) s
                = sku_total (inventory d) s"
    using sku_total_add [OF dist1 key1, of qty now' uid' stamp'] tot1 by simp
  show ?thesis
    unfolding run using tot1 tot2 by (simp add: cancel)
qed


theorem reserve_cancel_round_trip_witness:
  "sku_total (inventory stock_db) ''X'' = 15
   \<and> sku_total (inventory (fst (process_reserve_item 7 1 ''RESV-1'' ''RES-1'' ''X'' (Some 8) stock_db))) ''X'' = 7
   \<and> sku_total (inventory (fst (process_reserve_cancel 9 2 ''RESCN-1'' ''RES-1'' ''changed''
        (fst (process_reserve_item 7 1 ''RESV-1'' ''RES-1'' ''X'' (Some 8) stock_db))))) ''X'' = 15"
proof -
  have dist: "distinct (map inventory_key (inventory stock_db))"
    by (simp add: sample_defs inventory_key_def)
  have p8: "(0::int) < 8" by simp
  have cover: "(8::int) \<le> total_available (available_stock (inventory stock_db) ''X'')"
    by (simp add: sample_defs available_stock_def)
  have fresh: "''RES-1'' \<notin> reserve_id ` set (reservations stock_db)"
    by (simp add: stock_db_def)
  have tot: "sku_total (inventory stock_db) ''X'' = 15"
    by (simp add: sample_defs sku_total_def)
  note t = reserve_cancel_round_trip [OF dist p8 cover fresh, of 7 1 "''RESV-1''" 9 2 "''RESCN-1''" "''changed''"]
  have a: "sku_total (inventory (fst (process_reserve_item 7 1 ''RESV-1'' ''RES-1'' ''X'' (Some 8) stock_db))) ''X'' = 7"
    using t [THEN conjunct2, THEN conjunct1] unfolding tot by simp
  have b: "sku_total (inventory (fst (process_reserve_cancel 9 2 ''RESCN-1'' ''RES-1'' ''changed''
        (fst (process_reserve_item 7 1 ''RESV-1'' ''RES-1'' ''X'' (Some 8) stock_db))))) ''X'' = 15"
    using t [THEN conjunct2, THEN conjunct2, THEN conjunct2] unfolding tot .
  from tot a b show ?thesis by (intro conjI)
qed


section \<open>Cancelling a reservation\<close>

text \<open>
  C6. When no reservation of the given id is PENDING (it is PICKED, RETURNED or
  CANCELLED, or there is none), the cancellation fails with
  \<open>ReservationNotFoundError\<close> and both tables are unchanged. When the lookup finds the
  PENDING reservation \<open>r\<close> and the ledger, with unique keys, holds the record of its
  SKU, lot and location, the cancellation succeeds: that record's quantity grows by the
  full reserved quantity, every other record is unchanged, so the SKU's total grows by
  the reserved quantity; the reservation is stamped CANCELLED with time, user and
  reason, and the reservations of other ids are unchanged.
\<close>

theorem cancel_only_from_pending:
  "((\<forall>x \<in> set (reservations d). reserve_id x = rid \<longrightarrow> status x \<noteq> PENDING) \<longrightarrow>
      process_reserve_cancel now uid stamp rid reason d = (d, Inl ReservationNotFoundError))
   \<and> (find (\<lambda>x. reserve_id x = rid \<and> status x = PENDING) (reservations d) = Some r
      \<and> reserved_lot r = Some l \<and> reserved_location r = Some c
      \<and> distinct (map inventory_key (inventory d))
      \<and> select_quantity (inventory d) (rsku r) l c = Some q \<longrightarrow>
        snd (process_reserve_cancel now uid stamp rid reason d) = Inr ()
        \<and> select_quantity (inventory (fst (process_reserve_cancel now uid stamp rid reason d))) (rsku r) l c
            = Some (q + rquantity r)
        \<and> filter (\<lambda>x. inventory_key x \<noteq> (rsku r, l, c))
                 (inventory (fst (process_reserve_cancel now uid stamp rid reason d)))
            = filter (\<lambda>x. inventory_key x \<noteq> (rsku r, l, c)) (inventory d)
        \<and> sku_total (inventory (fst (process_reserve_cancel now uid stamp rid reason d))) (rsku r)
            = sku_total (inventory d) (rsku r) + rquantity r
        \<and> (\<exists>r' \<in> set (reservations (fst (process_reserve_cancel now uid stamp rid reason d))).
              reserve_id r' = rid)
        \<and> (\<forall>r' \<in> set (reservations (fst (process_reserve_cancel now uid stamp rid reason d))).
              reserve_id r' = rid \<longrightarrow>
              status r' = CANCELLED \<and> cancel_date r' = Some now \<and> cancelled_by r' = Some uid
              \<and> cancel_reason r' = Some reason)
        \<and> filter (\<lambda>x. reserve_id x \<noteq> rid) (reservations (fst (process_reserve_cancel now uid stamp rid reason d)))
            = filter (\<lambda>x. reserve_id x \<noteq> rid) (reservations d))"
proof (intro conjI impI)
  assume "\<forall>x \<in> set (reservations d). reserve_id x = rid \<longrightarrow> status x \<noteq> PENDING"
  then have "find (\<lambda>x. reserve_id x = rid \<and> status x = PENDING) (reservations d) = None"
    by (auto simp: find_None_iff)
  then show "process_reserve_cancel now uid stamp rid reason d = (d, Inl ReservationNotFoundError)"
    by (simp add: process_reserve_cancel_def)
next
  let ?upd = "\<lambda>x. if reserve_id x = rid
                 then x\<lparr>status := CANCELLED, cancel_date := Some now,
                        cancelled_by := Some uid, cancel_reason := Some reason\<rparr>
                 else x"
  let ?ledger = "add_quantity (inventory d) (rquantity r) now uid stamp (rsku r) (Some l) (Some c)"
  assume a: "find (\<lambda>x. reserve_id x = rid \<and> status x = PENDING) (reservations d) = Some r
      \<and> reserved_lot r = Some l \<and> reserved_location r = Some c
      \<and> distinct (map inventory_key (inventory d))
      \<and> select_quantity (inventory d) (rsku r) l c = Some q"
  then have found: "find (\<lambda>x. reserve_id x = rid \<and> status x = PENDING) (reservations d) = Some r"
    and lc: "reserved_lot r = Some l" "reserved_location r = Some c"
    and dist: "distinct (map inventory_key (inventory d))"
    and sel: "select_quantity (inventory d) (rsku r) l c = Some q"
    by simp_all
  have mem: "r \<in> set (reservations d)" "reserve_id r = rid"
    using found by (auto simp: find_Some_iff)
  have eq: "process_reserve_cancel now uid stamp rid reason d
              = (\<lparr>inventory = ?ledger, reservations = map ?upd (reservations d)\<rparr>, Inr ())"
    by (simp add: process_reserve_cancel_def found lc)
  have inv: "inventory (fst (process_reserve_cancel now uid stamp rid reason d)) = ?ledger"
    and res: "reservations (fst (process_reserve_cancel now uid stamp rid reason d)) = map ?upd (reservations d)"
    by (simp_all add: eq)
  show "snd (process_reserve_cancel now uid stamp rid reason d) = Inr ()"
    by (simp add: eq)
  show "select_quantity (inventory (fst (process_reserve_cancel now uid stamp rid reason d))) (rsku r) l c
            = Some (q + rquantity r)"
    unfolding inv by (rule select_quantity_add [OF sel])
  show "filter (\<lambda>x. inventory_key x \<noteq> (rsku r, l, c))
                 (inventory (fst (process_reserve_cancel now uid stamp rid reason d)))
            = filter (\<lambda>x. inventory_key x \<noteq> (rsku r, l, c)) (inventory d)"
    unfolding inv by (rule add_quantity_other_keys)
  show "sku_total (inventory (fst (process_reserve_cancel now uid stamp rid reason d))) (rsku r)
            = sku_total (inventory d) (rsku r) + rquantity r"
    unfolding inv by (rule sku_total_add [OF dist select_quantity_key [OF sel]])
  show "\<exists>r' \<in> set (reservations (fst (process_reserve_cancel now uid stamp rid reason d))).
              reserve_id r' = rid"
    unfolding res using mem by (intro bexI [of _ "?upd r"]) simp_all
  show "\<forall>r' \<in> set (reservations (fst (process_reserve_cancel now uid stamp rid reason d))).
              reserve_id r' = rid \<longrightarrow>
              status r' = CANCELLED \<and> cancel_date r' = Some now \<and> cancelled_by r' = Some uid
              \<and> cancel_reason r' = Some reason"
    unfolding res by (rule marked_ids) simp_all
  show "filter (\<lambda>x. reserve_id x \<noteq> rid) (reservations (fst (process_reserve_cancel now uid stamp rid reason d)))
            = filter (\<lambda>x. reserve_id x \<noteq> rid) (reservations d)"
    unfolding res by (rule filter_other_ids) simp
qed


theorem cancel_only_from_pending_witness:
  "process_reserve_cancel 9 2 ''RESCN-1'' ''RES-1'' ''changed'' picked_db
     = (picked_db, Inl ReservationNotFoundError)
   \<and> snd (process_reserve_cancel 9 2 ''RESCN-1'' ''RES-1'' ''changed'' reserved_db) = Inr ()
   \<and> select_quantity (inventory (fst (process_reserve_cancel 9 2 ''RESCN-1'' ''RES-1'' ''changed'' reserved_db)))
        ''X'' ''A'' ''L1'' = Some 8"
proof -
  let ?r = "\<lparr>reserve_id = ''RES-1'', rsku = ''X'', rquantity = 8, reserved_by = 1,
          reservation_date = 7, status = PENDING, reserved_lot = Some ''A'',
          reserved_location = Some ''L1'', rid_stamp = ''RESV-1'', pickup_date = None,
          picked_by = None, return_date = None, returned_by = None, return_reason = None,
          cancel_date = None, cancelled_by = None, cancel_reason = None\<rparr>"
  have "list_all (\<lambda>x. status x \<noteq> PENDING) (reservations picked_db)"
    using picked_db_status by (cases "reservations picked_db") auto
  then have none: "\<forall>x \<in> set (reservations picked_db). reserve_id x = ''RES-1'' \<longrightarrow> status x \<noteq> PENDING"
    by (simp add: list_all_iff)
  have hyp: "find (\<lambda>x. reserve_id x = ''RES-1'' \<and> status x = PENDING) (reservations reserved_db) = Some ?r
      \<and> reserved_lot ?r = Some ''A'' \<and> reserved_location ?r = Some ''L1''
      \<and> distinct (map inventory_key (inventory reserved_db))
      \<and> select_quantity (inventory reserved_db) (rsku ?r) ''A'' ''L1'' = Some 0"
    unfolding reserved_db_eq
    by (simp add: lot_A_def lot_B_def inventory_key_def select_quantity_def key_matches_def)
  note first = cancel_only_from_pending [THEN conjunct1, THEN mp, OF none, of 9 2 "''RESCN-1''" "''changed''"]
  note second = cancel_only_from_pending [THEN conjunct2, THEN mp, OF hyp, of 9 2 "''RESCN-1''" "''changed''"]
  have q: "select_quantity (inventory (fst (process_reserve_cancel 9 2 ''RESCN-1'' ''RES-1'' ''changed'' reserved_db)))
        ''X'' ''A'' ''L1'' = Some 8"
    using second [THEN conjunct2, THEN conjunct1] by simp
  from first second [THEN conjunct1] q show ?thesis by (intro conjI)
qed


end
